theory Spec2Isabelle
  imports Main "HOL-Library.Sublist"
begin

section \<open>Data model of homecast.go\<close>

text \<open>
  Go strings are byte sequences; \<^typ>\<open>string\<close> is a list of 8-bit characters.
  A Go \<open>error\<close> value is one of: an error of the collaborators or of \<open>errors.New\<close>, kept
  as its message; \<open>url.EscapeError\<close>; \<open>url.InvalidHostError\<close>; \<open>*url.Error\<close> with its
  fields \<open>Op\<close>, \<open>URL\<close> and \<open>Err\<close>. A \<open>nil\<close> error is \<^term>\<open>None\<close>.
\<close>

datatype error =
    ErrorString string
  | EscapeError string
  | InvalidHostError string
  | URLError string string error

text \<open>
  \<open>mdns.ServiceEntry\<close>: the fields that homecast.go reads (\<open>Name\<close>, \<open>AddrV4\<close>,
  \<open>Port\<close>, \<open>InfoFields\<close>). The address is kept as its printed form.
\<close>

record ServiceEntry =
  Name :: string
  AddrV4 :: string
  Port :: int
  InfoFields :: "string list"

text \<open>
  \<open>*cast.Client\<close>: \<open>cast.NewClient(host, port)\<close> allocates a new client on every call.
  The pointer identity is the field \<open>ident\<close>: the number of clients allocated before
  this one during the discovery pass.
\<close>

record Client =
  host :: string
  port :: int
  ident :: nat

text \<open>\<open>CastDevice\<close> (lines 21-24): the embedded service entry and the cast client.\<close>

record CastDevice =
  entry :: ServiceEntry
  client :: Client

definition googleCastServiceName :: string where
  "googleCastServiceName = ''_googlecast._tcp''"

definition googleHomeModelInfo :: string where
  "googleHomeModelInfo = ''md=Google Home''"

text \<open>The lines written with \<open>log.Printf\<close> and \<open>log.Print\<close>, by what they report.\<close>

datatype log_line =
    EntryDetected ServiceEntry
  | ConnectFailed error
  | LookupFailed error
  | LoadMediaIntent string
  | QueueLoadIntent
  | QueueInsertIntent

section \<open>The collector of LookupAndConnect (lines 127-141)\<close>

text \<open>\<open>strings.HasPrefix(s, prefix)\<close>.\<close>

definition HasPrefix :: "string \<Rightarrow> string \<Rightarrow> bool" where
  "HasPrefix s pre = (length pre \<le> length s \<and> take (length pre) s = pre)"

text \<open>
  What the goroutine's closure mutates: the slice \<open>results\<close>, the clients allocated so
  far, and the log.
\<close>

record pass_state =
  results :: "CastDevice list"
  allocated :: nat
  logged :: "log_line list"

definition NewClient :: "string \<Rightarrow> int \<Rightarrow> nat \<Rightarrow> Client" where
  "NewClient h p n = \<lparr>host = h, port = p, ident = n\<rparr>"

definition log_add :: "log_line \<Rightarrow> pass_state \<Rightarrow> pass_state" where
  "log_add l st = st\<lparr>logged := logged st @ [l]\<rparr>"

text \<open>
  The body of the inner loop (lines 131-138) for one descriptor field. The parameter
  \<open>connect\<close> is \<open>client.Connect(ctx)\<close> of the device-control collaborator for the
  context of this call: \<^term>\<open>None\<close> when it returns \<open>nil\<close>, the error otherwise.
\<close>

definition handle_field ::
  "(Client \<Rightarrow> error option) \<Rightarrow> ServiceEntry \<Rightarrow> pass_state \<Rightarrow> string \<Rightarrow> pass_state" where
  "handle_field connect e st field =
     (if HasPrefix field googleHomeModelInfo then
        (let c = NewClient (AddrV4 e) (Port e) (allocated st);
             st' = st\<lparr>allocated := Suc (allocated st)\<rparr>
         in case connect c of
              Some err \<Rightarrow> log_add (ConnectFailed err) st'
            | None \<Rightarrow> st'\<lparr>results := results st' @ [\<lparr>entry = e, client = c\<rparr>]\<rparr>)
      else st)"

text \<open>The body of the outer loop (lines 129-139) for one received entry.\<close>

definition handle_entry ::
  "(Client \<Rightarrow> error option) \<Rightarrow> pass_state \<Rightarrow> ServiceEntry \<Rightarrow> pass_state" where
  "handle_entry connect st e =
     foldl (handle_field connect e) (log_add (EntryDetected e) st) (InfoFields e)"

text \<open>The collector run over the entries it receives, in order, until the channel is drained.\<close>

definition collector ::
  "(Client \<Rightarrow> error option) \<Rightarrow> pass_state \<Rightarrow> ServiceEntry list \<Rightarrow> pass_state" where
  "collector connect st es = foldl (handle_entry connect) st es"

definition empty_pass :: pass_state where
  "empty_pass = \<lparr>results = [], allocated = 0, logged = []\<rparr>"

text \<open>An entry qualifies when one of its descriptor fields starts with the marker.\<close>

definition qualifies :: "ServiceEntry \<Rightarrow> bool" where
  "qualifies e = (filter (\<lambda>f. HasPrefix f googleHomeModelInfo) (InfoFields e) \<noteq> [])"

definition marked_fields :: "ServiceEntry \<Rightarrow> nat" where
  "marked_fields e = length (filter (\<lambda>f. HasPrefix f googleHomeModelInfo) (InfoFields e))"

section \<open>LookupAndConnect as two threads (lines 123-150)\<close>

text \<open>
  The main thread calls \<open>mdns.Lookup\<close>, which sends entries into \<open>entriesCh\<close> (capacity
  4) and returns an error or \<open>nil\<close>; then it logs the error if there is one, closes the
  channel and returns \<open>results\<close>. The goroutine started on line 127 receives from the
  channel until it is closed and empty. Nothing in the function waits for the goroutine,
  so the two threads are interleaved by the scheduler: a step of the system is a step of
  either thread.
\<close>

datatype main_pc =
    Lookup "ServiceEntry list"
  | Close
  | Return
  | Done "CastDevice list"

datatype coll_pc =
    Receive
  | Fields ServiceEntry "string list"
  | Exited

record sched_state =
  chan :: "ServiceEntry list"
  closes :: nat
  shared :: pass_state
  main :: main_pc
  coll :: coll_pc

definition entriesCh_cap :: nat where
  "entriesCh_cap = 4"

text \<open>
  \<open>Lookup es\<close>: the lookup call is running and the discovery collaborator will still
  deliver the entries \<open>es\<close>. The parameter \<open>err\<close> is what the lookup call returns.
\<close>

inductive step ::
  "(Client \<Rightarrow> error option) \<Rightarrow> error option \<Rightarrow> sched_state \<Rightarrow> sched_state \<Rightarrow> bool"
  for connect :: "Client \<Rightarrow> error option" and err :: "error option" where
  send:
    "main s = Lookup (e # es) \<Longrightarrow> length (chan s) < entriesCh_cap \<Longrightarrow>
     step connect err s (s\<lparr>chan := chan s @ [e], main := Lookup es\<rparr>)"
| lookup_returns:
    "main s = Lookup [] \<Longrightarrow>
     step connect err s
       (s\<lparr>shared := (case err of None \<Rightarrow> shared s
                      | Some x \<Rightarrow> log_add (LookupFailed x) (shared s)),
          main := Close\<rparr>)"
| close:
    "main s = Close \<Longrightarrow>
     step connect err s (s\<lparr>closes := Suc (closes s), main := Return\<rparr>)"
| return:
    "main s = Return \<Longrightarrow>
     step connect err s (s\<lparr>main := Done (results (shared s))\<rparr>)"
| receive:
    "coll s = Receive \<Longrightarrow> chan s = e # q \<Longrightarrow>
     step connect err s
       (s\<lparr>chan := q, shared := log_add (EntryDetected e) (shared s),
          coll := Fields e (InfoFields e)\<rparr>)"
| field:
    "coll s = Fields e (f # fs) \<Longrightarrow>
     step connect err s
       (s\<lparr>shared := handle_field connect e (shared s) f, coll := Fields e fs\<rparr>)"
| fields_done:
    "coll s = Fields e [] \<Longrightarrow> step connect err s (s\<lparr>coll := Receive\<rparr>)"
| exit:
    "coll s = Receive \<Longrightarrow> chan s = [] \<Longrightarrow> 0 < closes s \<Longrightarrow>
     step connect err s (s\<lparr>coll := Exited\<rparr>)"

definition start :: "ServiceEntry list \<Rightarrow> sched_state" where
  "start es = \<lparr>chan = [], closes = 0, shared = empty_pass, main = Lookup es, coll = Receive\<rparr>"

definition reachable ::
  "(Client \<Rightarrow> error option) \<Rightarrow> error option \<Rightarrow> ServiceEntry list \<Rightarrow> sched_state \<Rightarrow> bool" where
  "reachable connect err es s = rtranclp (step connect err) (start es) s"

text \<open>The state the collector would reach from \<open>s\<close> by processing everything still to come.\<close>

definition pending :: "sched_state \<Rightarrow> ServiceEntry list" where
  "pending s = chan s @ (case main s of Lookup es \<Rightarrow> es | _ \<Rightarrow> [])"

definition drained :: "(Client \<Rightarrow> error option) \<Rightarrow> sched_state \<Rightarrow> pass_state" where
  "drained connect s =
     collector connect
       (case coll s of Fields e fs \<Rightarrow> foldl (handle_field connect e) (shared s) fs
                     | _ \<Rightarrow> shared s)
       (pending s)"
section \<open>Notions used to state the properties of the discovery pass\<close>

text \<open>Two pass states with the same result slice and the same number of clients allocated.\<close>

definition same_core :: "pass_state \<Rightarrow> pass_state \<Rightarrow> bool" where
  "same_core a b = (results a = results b \<and> allocated a = allocated b)"

text \<open>The device appended on line 137 for entry \<open>e\<close> when its client is the \<open>n\<close>-th allocated.\<close>

definition device_of :: "ServiceEntry \<Rightarrow> nat \<Rightarrow> CastDevice" where
  "device_of e n = \<lparr>entry = e, client = NewClient (AddrV4 e) (Port e) n\<rparr>"

text \<open>
  A device of the result slice is sound when its entry qualifies, its client was connected
  without error to the address and port of that entry, and was allocated during the pass.
\<close>

definition sound_device :: "(Client \<Rightarrow> error option) \<Rightarrow> nat \<Rightarrow> CastDevice \<Rightarrow> bool" where
  "sound_device connect n d =
     (qualifies (entry d) \<and> connect (client d) = None \<and>
      host (client d) = AddrV4 (entry d) \<and> port (client d) = Port (entry d) \<and>
      ident (client d) < n)"

definition sound_pass :: "(Client \<Rightarrow> error option) \<Rightarrow> pass_state \<Rightarrow> bool" where
  "sound_pass connect st =
     (list_all (sound_device connect (allocated st)) (results st) \<and>
      distinct (map (\<lambda>d. ident (client d)) (results st)))"

text \<open>Once the main thread has returned, what it returned is a prefix of the result slice.\<close>

definition snapshot_ok :: "sched_state \<Rightarrow> bool" where
  "snapshot_ok s = (case main s of Done r \<Rightarrow> prefix r (results (shared s)) | _ \<Rightarrow> True)"

text \<open>The channel has been closed once the main thread is past line 147, and not before.\<close>

definition closes_ok :: "sched_state \<Rightarrow> bool" where
  "closes_ok s = (closes s = (case main s of Lookup es \<Rightarrow> 0 | Close \<Rightarrow> 0 | _ \<Rightarrow> 1))"

section \<open>Example advertisements and collaborators\<close>

definition home_entry :: ServiceEntry where
  "home_entry = \<lparr>Name = ''Google-Home-kitchen'', AddrV4 = ''10.0.0.5'', Port = 8009,
     InfoFields = [''id=4f1c'', ''md=Google Home'', ''fn=Kitchen'']\<rparr>"

definition tv_entry :: ServiceEntry where
  "tv_entry = \<lparr>Name = ''Chromecast-tv'', AddrV4 = ''10.0.0.9'', Port = 8009,
     InfoFields = [''id=77aa'', ''md=Chromecast'']\<rparr>"

definition broken_entry :: ServiceEntry where
  "broken_entry = \<lparr>Name = ''Google-Home-attic'', AddrV4 = ''10.0.0.7'', Port = 8009,
     InfoFields = [''md=Google Home Mini'']\<rparr>"

definition twice_entry :: ServiceEntry where
  "twice_entry = \<lparr>Name = ''Google-Home-hall'', AddrV4 = ''10.0.0.6'', Port = 8009,
     InfoFields = [''md=Google Home'', ''fn=Hall'', ''md=Google Home Max'']\<rparr>"

definition always_up :: "Client \<Rightarrow> error option" where
  "always_up c = None"

definition attic_down :: "Client \<Rightarrow> error option" where
  "attic_down c = (if host c = ''10.0.0.7'' then Some (ErrorString ''i/o timeout'') else None)"
section \<open>The playback operations (lines 36-120)\<close>

text \<open>
  Modelled from the spec: \<open>controllers.MediaItem\<close> and \<open>controllers.MediaMetaData\<close> are
  declared in the go-cast package, not in the repository. The spec's content reference has
  a content id, a content type, a stream type and optional metadata with a kind and a
  title. \<open>MetaData = None\<close> stands for a composite literal that does not set the field
  \<open>MetaData\<close>, as the one of \<open>Play\<close> (lines 52-56).
\<close>

record MediaMetaData =
  MetaDataType :: int
  Title :: string

record MediaItem =
  ContentId :: string
  StreamType :: string
  ContentType :: string
  MetaData :: "MediaMetaData option"

text \<open>
  \<open>MediaData\<close> (lines 65-68). The locator is a \<open>*url.URL\<close> that is not \<open>nil\<close>; its type
  is a parameter, and so is the function that renders it, \<open>(*URL).String\<close>.
\<close>

record 'u MediaData =
  URL :: 'u
  Title :: string

text \<open>
  What a playback operation does to the outside, in order: the call of
  \<open>g.client.Media(ctx)\<close>, a log line, and the commands sent on the media handle.
  \<open>LoadMediaCmd item t autoplay\<close> is \<open>media.LoadMedia(ctx, item, t, autoplay, nil)\<close>,
  \<open>QueueLoadCmd items i\<close> is \<open>media.QueueLoad(ctx, items, i, nil)\<close> and
  \<open>QueueInsertCmd items\<close> is \<open>media.QueueInsert(ctx, items, nil)\<close>.
\<close>

datatype effect =
    MediaCall
  | LogLine log_line
  | LoadMediaCmd MediaItem int bool
  | QueueLoadCmd "MediaItem list" int
  | QueueInsertCmd "MediaItem list"

text \<open>
  The device-control collaborator behind \<open>g.client\<close>, for the context of the call: the
  error of \<open>Media\<close> (\<^term>\<open>None\<close> when the handle is obtained) and the error with which
  each command returns.
\<close>

record cast_client =
  media_err :: "error option"
  load_media_err :: "MediaItem \<Rightarrow> int \<Rightarrow> bool \<Rightarrow> error option"
  queue_load_err :: "MediaItem list \<Rightarrow> int \<Rightarrow> error option"
  queue_insert_err :: "MediaItem list \<Rightarrow> error option"

text \<open>\<open>Play\<close> (lines 46-62): the error returned and the effects, in order.\<close>

definition Play :: "cast_client \<Rightarrow> ('u \<Rightarrow> string) \<Rightarrow> 'u \<Rightarrow> error option \<times> effect list" where
  "Play g String url =
     (case media_err g of
        Some err \<Rightarrow> (Some err, [MediaCall])
      | None \<Rightarrow>
          let mediaItem = \<lparr>ContentId = String url, StreamType = ''BUFFERED'',
                             ContentType = ''audio/mp3'', MetaData = None\<rparr>
          in (load_media_err g mediaItem 0 True,
              [MediaCall, LogLine (LoadMediaIntent (ContentId mediaItem)),
               LoadMediaCmd mediaItem 0 True]))"

text \<open>The item built for one element of \<open>data\<close> (lines 80-88 and 105-113).\<close>

definition queue_item :: "('u \<Rightarrow> string) \<Rightarrow> 'u MediaData \<Rightarrow> MediaItem" where
  "queue_item String d =
     \<lparr>ContentId = String (URL d), StreamType = ''BUFFERED'', ContentType = ''audio/mp3'',
      MetaData = Some \<lparr>MetaDataType = 3, MediaMetaData.Title = Title d\<rparr>\<rparr>"

text \<open>The zero value of \<open>controllers.MediaItem\<close>, with which \<open>make\<close> fills the slice.\<close>

definition zero_item :: MediaItem where
  "zero_item = \<lparr>ContentId = [], StreamType = [], ContentType = [], MetaData = None\<rparr>"

text \<open>
  The loop \<open>for i, d := range data { items[i] = ... }\<close> (lines 79-89 and 104-114), from
  index \<open>i\<close> on. The indices stay within \<open>items\<close>, which has the length of \<open>data\<close>.
\<close>

fun fill_items ::
  "('u \<Rightarrow> string) \<Rightarrow> nat \<Rightarrow> 'u MediaData list \<Rightarrow> MediaItem list \<Rightarrow> MediaItem list" where
  "fill_items String i [] items = items"
| "fill_items String i (d # ds) items =
     fill_items String (Suc i) ds (items[i := queue_item String d])"

definition build_items :: "('u \<Rightarrow> string) \<Rightarrow> 'u MediaData list \<Rightarrow> MediaItem list" where
  "build_items String data = fill_items String 0 data (replicate (length data) zero_item)"

text \<open>\<open>QueueLoad\<close> (lines 72-95).\<close>

definition QueueLoad ::
  "cast_client \<Rightarrow> ('u \<Rightarrow> string) \<Rightarrow> 'u MediaData list \<Rightarrow> error option \<times> effect list" where
  "QueueLoad g String data =
     (case media_err g of
        Some err \<Rightarrow> (Some err, [MediaCall])
      | None \<Rightarrow>
          let items = build_items String data
          in (queue_load_err g items 0,
              [MediaCall, LogLine QueueLoadIntent, QueueLoadCmd items 0]))"

text \<open>\<open>QueueInsert\<close> (lines 97-120).\<close>

definition QueueInsert ::
  "cast_client \<Rightarrow> ('u \<Rightarrow> string) \<Rightarrow> 'u MediaData list \<Rightarrow> error option \<times> effect list" where
  "QueueInsert g String data =
     (case media_err g of
        Some err \<Rightarrow> (Some err, [MediaCall])
      | None \<Rightarrow>
          let items = build_items String data
          in (queue_insert_err g items,
              [MediaCall, LogLine QueueInsertIntent, QueueInsertCmd items]))"

text \<open>The commands among the effects of an operation, in order.\<close>

fun load_commands :: "effect list \<Rightarrow> (MediaItem \<times> int \<times> bool) list" where
  "load_commands [] = []"
| "load_commands (LoadMediaCmd item t autoplay # es) = (item, t, autoplay) # load_commands es"
| "load_commands (e # es) = load_commands es"

fun queue_load_commands :: "effect list \<Rightarrow> (MediaItem list \<times> int) list" where
  "queue_load_commands [] = []"
| "queue_load_commands (QueueLoadCmd items i # es) = (items, i) # queue_load_commands es"
| "queue_load_commands (e # es) = queue_load_commands es"

text \<open>Example collaborators: one that answers every call, one whose media handle fails.\<close>

definition ready_client :: cast_client where
  "ready_client = \<lparr>media_err = None, load_media_err = (\<lambda>item t autoplay. None),
     queue_load_err = (\<lambda>items i. None), queue_insert_err = (\<lambda>items. None)\<rparr>"

definition offline_client :: cast_client where
  "offline_client = \<lparr>media_err = Some (ErrorString ''media channel unavailable''),
     load_media_err = (\<lambda>item t autoplay. None),
     queue_load_err = (\<lambda>items i. None), queue_insert_err = (\<lambda>items. None)\<rparr>"

text \<open>Two playlist entries, as examples.\<close>

definition track_a :: "string MediaData" where
  "track_a = \<lparr>URL = ''http://10.0.0.2/a.mp3'', Title = ''T1''\<rparr>"

definition track_b :: "string MediaData" where
  "track_b = \<lparr>URL = ''http://10.0.0.2/b.mp3'', Title = ''T2''\<rparr>"

section \<open>The standard-library functions that tts calls\<close>

text \<open>
  \<open>tts\<close> (lines 154-157) is \<open>url.Parse(fmt.Sprintf(base, url.QueryEscape(text),
  url.QueryEscape(lang)))\<close>. What it returns is decided by Go's packages \<open>strings\<close>, \<open>fmt\<close>
  and \<open>net/url\<close>, which are not part of the repository. The definitions of this section
  follow the Go source of these functions, function by function and case by case, over
  bytes; each names the Go function it stands for.
\<close>

definition byte :: "char \<Rightarrow> nat" where
  "byte c = of_char c"

definition in_range :: "char \<Rightarrow> char \<Rightarrow> char \<Rightarrow> bool" where
  "in_range lo hi c = (byte lo \<le> byte c \<and> byte c \<le> byte hi)"

subsection \<open>Package strings\<close>

text \<open>\<open>strings.HasSuffix\<close>.\<close>

definition HasSuffix :: "string \<Rightarrow> string \<Rightarrow> bool" where
  "HasSuffix s suf = (length suf \<le> length s \<and> drop (length s - length suf) s = suf)"

text \<open>\<open>strings.Index\<close>: the index of the first instance of \<open>substr\<close>, \<^term>\<open>None\<close> for -1.\<close>

fun Index :: "string \<Rightarrow> string \<Rightarrow> nat option" where
  "Index [] substr = (if substr = [] then Some 0 else None)"
| "Index (c # cs) substr =
     (if HasPrefix (c # cs) substr then Some 0 else map_option Suc (Index cs substr))"

text \<open>\<open>strings.LastIndex\<close>: the index of the last instance of \<open>substr\<close>.\<close>

fun LastIndex :: "string \<Rightarrow> string \<Rightarrow> nat option" where
  "LastIndex [] substr = (if substr = [] then Some 0 else None)"
| "LastIndex (c # cs) substr =
     (case LastIndex cs substr of
        Some i \<Rightarrow> Some (Suc i)
      | None \<Rightarrow> if HasPrefix (c # cs) substr then Some 0 else None)"

text \<open>\<open>strings.Contains\<close>.\<close>

definition Contains :: "string \<Rightarrow> string \<Rightarrow> bool" where
  "Contains s substr = (Index s substr \<noteq> None)"

text \<open>\<open>strings.Count\<close> for a separator of one byte, the only use in \<open>net/url\<close>.\<close>

definition Count :: "string \<Rightarrow> char \<Rightarrow> nat" where
  "Count s c = length (filter (\<lambda>x. x = c) s)"

text \<open>
  \<open>strings.Cut\<close>: \<open>s\<close> around the first instance of \<open>sep\<close>, and whether \<open>sep\<close> was found;
  when it is not found, the result is \<open>s, "", false\<close>.
\<close>

fun Cut :: "string \<Rightarrow> string \<Rightarrow> string \<times> string \<times> bool" where
  "Cut [] sep = ([], [], sep = [])"
| "Cut (c # cs) sep =
     (if HasPrefix (c # cs) sep then ([], drop (length sep) (c # cs), True)
      else case Cut cs sep of
             (before, after, True) \<Rightarrow> (c # before, after, True)
           | (before, after, False) \<Rightarrow> (c # cs, [], False))"

text \<open>
  \<open>strings.ToLower\<close> on ASCII letters; other bytes are kept. (\<open>net/url\<close> applies it to a
  scheme, which \<open>getScheme\<close> has checked to be ASCII letters, digits, \<open>+\<close>, \<open>-\<close> and \<open>.\<close>.)
\<close>

definition ToLower :: "string \<Rightarrow> string" where
  "ToLower s = map (\<lambda>c. if in_range CHR ''A'' CHR ''Z'' c then char_of (byte c + 32) else c) s"

subsection \<open>Package fmt\<close>

text \<open>
  \<open>fmt.Sprintf\<close> for string operands and the directives \<open>%s\<close> and \<open>%%\<close>, with what Go
  prints for a missing operand, for a lone \<open>%\<close> at the end and for operands left over.
  The format of \<open>tts\<close> has no other directive; the model copies the bytes of any other
  directive unchanged.
\<close>

fun extra_operands :: "string list \<Rightarrow> string" where
  "extra_operands [] = []"
| "extra_operands [a] = ''string='' @ a"
| "extra_operands (a # b # as) = ''string='' @ a @ '', '' @ extra_operands (b # as)"

fun Sprintf :: "string \<Rightarrow> string list \<Rightarrow> string" where
  "Sprintf [] [] = []"
| "Sprintf [] (a # as) = ''%!(EXTRA '' @ extra_operands (a # as) @ '')''"
| "Sprintf [c] as =
     (if c = CHR ''%'' then ''%!(NOVERB)'' @ Sprintf [] as else c # Sprintf [] as)"
| "Sprintf (c # v # fs) as =
     (if c = CHR ''%'' \<and> v = CHR ''s'' then
        (case as of [] \<Rightarrow> ''%!s(MISSING)'' @ Sprintf fs []
                  | a # as' \<Rightarrow> a @ Sprintf fs as')
      else if c = CHR ''%'' \<and> v = CHR ''%'' then CHR ''%'' # Sprintf fs as
      else c # Sprintf (v # fs) as)"

subsection \<open>Package net/url: escaping\<close>

datatype encoding =
    encodePath
  | encodePathSegment
  | encodeHost
  | encodeZone
  | encodeUserPassword
  | encodeQueryComponent
  | encodeFragment

text \<open>\<open>url.shouldEscape\<close>.\<close>

definition shouldEscape :: "char \<Rightarrow> encoding \<Rightarrow> bool" where
  "shouldEscape c mode =
     (if in_range CHR ''a'' CHR ''z'' c \<or> in_range CHR ''A'' CHR ''Z'' c \<or>
         in_range CHR ''0'' CHR ''9'' c then False
      else if (mode = encodeHost \<or> mode = encodeZone) \<and>
              c \<in> set [CHR ''!'', CHR ''$'', CHR ''&'', CHR 0x27, CHR ''('', CHR '')'', CHR ''*'',
                        CHR ''+'', CHR '','', CHR '';'', CHR ''='', CHR '':'', CHR ''['', CHR '']'',
                        CHR ''<'', CHR ''>'', CHR 0x22] then False
      else if c \<in> set ''-_.~'' then False
      else if c \<in> set ''$&+,/:;=?@'' then
        (case mode of
           encodePath \<Rightarrow> c = CHR ''?''
         | encodePathSegment \<Rightarrow> c = CHR ''/'' \<or> c = CHR '';'' \<or> c = CHR '','' \<or> c = CHR ''?''
         | encodeUserPassword \<Rightarrow> c = CHR ''@'' \<or> c = CHR ''/'' \<or> c = CHR ''?'' \<or> c = CHR '':''
         | encodeQueryComponent \<Rightarrow> True
         | encodeFragment \<Rightarrow> False
         | _ \<Rightarrow> True)
      else if mode = encodeFragment \<and> c \<in> set ''!()*'' then False
      else True)"

definition upperhex :: string where
  "upperhex = ''0123456789ABCDEF''"

text \<open>
  \<open>url.ishex\<close> and \<open>url.unhex\<close>. \<open>unhex\<close> is only called on bytes that \<open>ishex\<close> accepts;
  on any other byte it is 0 here.
\<close>

definition ishex :: "char \<Rightarrow> bool" where
  "ishex c = (in_range CHR ''0'' CHR ''9'' c \<or> in_range CHR ''a'' CHR ''f'' c \<or>
              in_range CHR ''A'' CHR ''F'' c)"

definition unhex :: "char \<Rightarrow> nat" where
  "unhex c =
     (if in_range CHR ''0'' CHR ''9'' c then byte c - byte CHR ''0''
      else if in_range CHR ''a'' CHR ''f'' c then byte c - byte CHR ''a'' + 10
      else if in_range CHR ''A'' CHR ''F'' c then byte c - byte CHR ''A'' + 10
      else 0)"

text \<open>
  \<open>url.escape\<close>: a space becomes \<open>+\<close> in a query component, a byte that
  \<open>shouldEscape\<close> becomes \<open>%XX\<close> (\<open>c>>4\<close> is \<open>byte c div 16\<close>, \<open>c&15\<close> is \<open>byte c mod 16\<close>),
  every other byte is kept. (Go first counts the bytes to escape and returns \<open>s\<close> itself
  when there are none, which is what the loop gives then.)
\<close>

fun escape :: "string \<Rightarrow> encoding \<Rightarrow> string" where
  "escape [] mode = []"
| "escape (c # cs) mode =
     (if c = CHR '' '' \<and> mode = encodeQueryComponent then CHR ''+'' # escape cs mode
      else if shouldEscape c mode then
        CHR ''%'' # upperhex ! (byte c div 16) # upperhex ! (byte c mod 16) # escape cs mode
      else c # escape cs mode)"

definition QueryEscape :: "string \<Rightarrow> string" where
  "QueryEscape s = escape s encodeQueryComponent"

text \<open>
  \<open>url.unescape\<close>, first loop: the check that every \<open>%\<close> is followed by two hex digits,
  and the checks of the host and zone modes.
\<close>

fun unescape_check :: "encoding \<Rightarrow> string \<Rightarrow> error option" where
  "unescape_check mode [] = None"
| "unescape_check mode (c # cs) =
     (if c = CHR ''%'' then
        (case cs of
           a # b # rest \<Rightarrow>
             if \<not> ishex a \<or> \<not> ishex b then Some (EscapeError (take 3 (c # cs)))
             else if mode = encodeHost \<and> unhex a < 8 \<and> [c, a, b] \<noteq> ''%25'' then
               Some (EscapeError [c, a, b])
             else if mode = encodeZone \<and> [c, a, b] \<noteq> ''%25'' \<and>
                     char_of (unhex a * 16 + unhex b) \<noteq> CHR '' '' \<and>
                     shouldEscape (char_of (unhex a * 16 + unhex b)) encodeHost then
               Some (EscapeError [c, a, b])
             else unescape_check mode rest
         | _ \<Rightarrow> Some (EscapeError (take 3 (c # cs))))
      else if c = CHR ''+'' then unescape_check mode cs
      else if (mode = encodeHost \<or> mode = encodeZone) \<and> byte c < 0x80 \<and>
              shouldEscape c encodeHost then Some (InvalidHostError [c])
      else unescape_check mode cs)"

text \<open>
  \<open>url.unescape\<close>, second loop: \<open>%XX\<close> becomes the byte \<open>unhex(X)<<4 | unhex(X)\<close>, and
  \<open>+\<close> becomes a space in a query component. The loop runs only after the check has
  passed, so a \<open>%\<close> is always followed by two bytes there.
\<close>

fun unescape_build :: "encoding \<Rightarrow> string \<Rightarrow> string" where
  "unescape_build mode [] = []"
| "unescape_build mode (c # cs) =
     (if c = CHR ''%'' then
        (case cs of
           a # b # rest \<Rightarrow> char_of (unhex a * 16 + unhex b) # unescape_build mode rest
         | _ \<Rightarrow> [])
      else if c = CHR ''+'' then
        (if mode = encodeQueryComponent then CHR '' '' else CHR ''+'') # unescape_build mode cs
      else c # unescape_build mode cs)"

text \<open>
  \<open>url.unescape\<close>: \<open>n == 0 && !hasPlus\<close> holds when \<open>s\<close> has no \<open>%\<close> and, in a query
  component, no \<open>+\<close>; then \<open>s\<close> itself is returned.
\<close>

definition unescape :: "string \<Rightarrow> encoding \<Rightarrow> error + string" where
  "unescape s mode =
     (case unescape_check mode s of
        Some err \<Rightarrow> Inl err
      | None \<Rightarrow>
          if CHR ''%'' \<notin> set s \<and> \<not> (mode = encodeQueryComponent \<and> CHR ''+'' \<in> set s) then Inr s
          else Inr (unescape_build mode s))"

definition QueryUnescape :: "string \<Rightarrow> error + string" where
  "QueryUnescape s = unescape s encodeQueryComponent"

subsection \<open>Package net/url: Parse\<close>

text \<open>\<open>url.Userinfo\<close> and \<open>url.URL\<close>.\<close>

record Userinfo =
  username :: string
  password :: string
  passwordSet :: bool

record URL =
  Scheme :: string
  Opaque :: string
  User :: "Userinfo option"
  Host :: string
  Path :: string
  RawPath :: string
  OmitHost :: bool
  ForceQuery :: bool
  RawQuery :: string
  Fragment :: string
  RawFragment :: string

text \<open>\<open>new(URL)\<close>: every field at its zero value.\<close>

definition new_URL :: URL where
  "new_URL = \<lparr>Scheme = [], Opaque = [], User = None, Host = [], Path = [], RawPath = [],
     OmitHost = False, ForceQuery = False, RawQuery = [], Fragment = [], RawFragment = []\<rparr>"

text \<open>\<open>url.stringContainsCTLByte\<close>.\<close>

definition stringContainsCTLByte :: "string \<Rightarrow> bool" where
  "stringContainsCTLByte s = list_ex (\<lambda>b. byte b < 0x20 \<or> byte b = 0x7f) s"

text \<open>
  \<open>url.getScheme\<close>: the loop over \<open>rawURL\<close>, at index \<open>i\<close> with the bytes from \<open>i\<close> on
  still to read.
\<close>

fun getScheme_loop :: "string \<Rightarrow> nat \<Rightarrow> string \<Rightarrow> error + (string \<times> string)" where
  "getScheme_loop rawURL i [] = Inr ([], rawURL)"
| "getScheme_loop rawURL i (c # cs) =
     (if in_range CHR ''a'' CHR ''z'' c \<or> in_range CHR ''A'' CHR ''Z'' c then
        getScheme_loop rawURL (Suc i) cs
      else if in_range CHR ''0'' CHR ''9'' c \<or> c = CHR ''+'' \<or> c = CHR ''-'' \<or> c = CHR ''.'' then
        (if i = 0 then Inr ([], rawURL) else getScheme_loop rawURL (Suc i) cs)
      else if c = CHR '':'' then
        (if i = 0 then Inl (ErrorString ''missing protocol scheme'')
         else Inr (take i rawURL, drop (Suc i) rawURL))
      else Inr ([], rawURL))"

definition getScheme :: "string \<Rightarrow> error + (string \<times> string)" where
  "getScheme rawURL = getScheme_loop rawURL 0 rawURL"

text \<open>\<open>url.validOptionalPort\<close>: empty, or a colon followed by digits.\<close>

definition validOptionalPort :: "string \<Rightarrow> bool" where
  "validOptionalPort p =
     (case p of
        [] \<Rightarrow> True
      | c # ds \<Rightarrow> c = CHR '':'' \<and> list_all (in_range CHR ''0'' CHR ''9'') ds)"

text \<open>
  \<open>url.validUserinfo\<close>. The Go loop ranges over runes; every rune outside ASCII is
  refused, which is every byte from \<open>0x80\<close> on.
\<close>

definition validUserinfo :: "string \<Rightarrow> bool" where
  "validUserinfo s =
     list_all (\<lambda>r. in_range CHR ''A'' CHR ''Z'' r \<or> in_range CHR ''a'' CHR ''z'' r \<or>
                   in_range CHR ''0'' CHR ''9'' r \<or>
                   r \<in> set [CHR ''-'', CHR ''.'', CHR ''_'', CHR '':'', CHR ''~'', CHR ''!'',
                             CHR ''$'', CHR ''&'', CHR 0x27, CHR ''('', CHR '')'', CHR ''*'',
                             CHR ''+'', CHR '','', CHR '';'', CHR ''='', CHR ''%'', CHR ''@'']) s"

text \<open>\<open>url.parseHost\<close>. (In the message of an invalid port, Go prints the port quoted.)\<close>

definition parseHost :: "string \<Rightarrow> error + string" where
  "parseHost h =
     (if HasPrefix h ''['' then
        (case LastIndex h '']'' of
           None \<Rightarrow> Inl (ErrorString ''missing ']' in host'')
         | Some i \<Rightarrow>
             if \<not> validOptionalPort (drop (Suc i) h) then
               Inl (ErrorString (''invalid port '' @ drop (Suc i) h @ '' after host''))
             else
               (case Index (take i h) ''%25'' of
                  Some zone \<Rightarrow>
                    (case unescape (take zone h) encodeHost of
                       Inl err \<Rightarrow> Inl err
                     | Inr host1 \<Rightarrow>
                         (case unescape (drop zone (take i h)) encodeZone of
                            Inl err \<Rightarrow> Inl err
                          | Inr host2 \<Rightarrow>
                              (case unescape (drop i h) encodeHost of
                                 Inl err \<Rightarrow> Inl err
                               | Inr host3 \<Rightarrow> Inr (host1 @ host2 @ host3))))
                | None \<Rightarrow> unescape h encodeHost))
      else
        (case LastIndex h '':'' of
           Some i \<Rightarrow>
             if \<not> validOptionalPort (drop i h) then
               Inl (ErrorString (''invalid port '' @ drop i h @ '' after host''))
             else unescape h encodeHost
         | None \<Rightarrow> unescape h encodeHost))"

text \<open>\<open>url.parseAuthority\<close>.\<close>

definition parseAuthority :: "string \<Rightarrow> error + (Userinfo option \<times> string)" where
  "parseAuthority authority =
     (case LastIndex authority ''@'' of
        None \<Rightarrow>
          (case parseHost authority of
             Inl err \<Rightarrow> Inl err
           | Inr h \<Rightarrow> Inr (None, h))
      | Some i \<Rightarrow>
          (case parseHost (drop (Suc i) authority) of
             Inl err \<Rightarrow> Inl err
           | Inr h \<Rightarrow>
               let userinfo = take i authority in
               if \<not> validUserinfo userinfo then Inl (ErrorString ''net/url: invalid userinfo'')
               else if \<not> Contains userinfo '':'' then
                 (case unescape userinfo encodeUserPassword of
                    Inl err \<Rightarrow> Inl err
                  | Inr u \<Rightarrow>
                      Inr (Some \<lparr>username = u, password = [], passwordSet = False\<rparr>, h))
               else
                 (case Cut userinfo '':'' of
                    (name, pass, found) \<Rightarrow>
                      (case unescape name encodeUserPassword of
                         Inl err \<Rightarrow> Inl err
                       | Inr u \<Rightarrow>
                           (case unescape pass encodeUserPassword of
                              Inl err \<Rightarrow> Inl err
                            | Inr p \<Rightarrow>
                                Inr (Some \<lparr>username = u, password = p, passwordSet = True\<rparr>,
                                     h))))))"

text \<open>\<open>(*URL).setPath\<close> and \<open>(*URL).setFragment\<close>.\<close>

definition setPath :: "URL \<Rightarrow> string \<Rightarrow> error + URL" where
  "setPath u p =
     (case unescape p encodePath of
        Inl err \<Rightarrow> Inl err
      | Inr path \<Rightarrow>
          Inr (u\<lparr>Path := path, RawPath := (if p = escape path encodePath then [] else p)\<rparr>))"

definition setFragment :: "URL \<Rightarrow> string \<Rightarrow> error + URL" where
  "setFragment u f =
     (case unescape f encodeFragment of
        Inl err \<Rightarrow> Inl err
      | Inr frag \<Rightarrow>
          Inr (u\<lparr>Fragment := frag,
                 RawFragment := (if f = escape frag encodeFragment then [] else f)\<rparr>))"

text \<open>\<open>url.parse\<close>.\<close>

definition parse :: "string \<Rightarrow> bool \<Rightarrow> error + URL" where
  "parse rawURL viaRequest =
     (if stringContainsCTLByte rawURL then
        Inl (ErrorString ''net/url: invalid control character in URL'')
      else if rawURL = [] \<and> viaRequest then Inl (ErrorString ''empty url'')
      else if rawURL = ''*'' then Inr (new_URL\<lparr>Path := ''*''\<rparr>)
      else
        (case getScheme rawURL of
           Inl err \<Rightarrow> Inl err
         | Inr (scheme0, rest0) \<Rightarrow>
             let scheme = ToLower scheme0;
                 force = (HasSuffix rest0 ''?'' \<and> Count rest0 CHR ''?'' = 1);
                 rest = (if force then butlast rest0 else fst (Cut rest0 ''?''));
                 query = (if force then [] else fst (snd (Cut rest0 ''?'')));
                 url = new_URL\<lparr>Scheme := scheme, ForceQuery := force, RawQuery := query\<rparr>
             in
               if \<not> HasPrefix rest ''/'' \<and> scheme \<noteq> [] then Inr (url\<lparr>Opaque := rest\<rparr>)
               else if \<not> HasPrefix rest ''/'' \<and> viaRequest then
                 Inl (ErrorString ''invalid URI for request'')
               else if \<not> HasPrefix rest ''/'' \<and> Contains (fst (Cut rest ''/'')) '':'' then
                 Inl (ErrorString ''first path segment in URL cannot contain colon'')
               else if (scheme \<noteq> [] \<or> (\<not> viaRequest \<and> \<not> HasPrefix rest ''///'')) \<and>
                       HasPrefix rest ''//'' then
                 (let authority0 = drop 2 rest;
                      authority = (case Index authority0 ''/'' of
                                     Some i \<Rightarrow> take i authority0 | None \<Rightarrow> authority0);
                      rest' = (case Index authority0 ''/'' of
                                 Some i \<Rightarrow> drop i authority0 | None \<Rightarrow> [])
                  in case parseAuthority authority of
                       Inl err \<Rightarrow> Inl err
                     | Inr (user, h) \<Rightarrow> setPath (url\<lparr>User := user, Host := h\<rparr>) rest')
               else if scheme \<noteq> [] \<and> HasPrefix rest ''/'' then
                 setPath (url\<lparr>OmitHost := True\<rparr>) rest
               else setPath url rest))"

text \<open>\<open>url.Parse\<close>.\<close>

definition Parse :: "string \<Rightarrow> error + URL" where
  "Parse rawURL =
     (case Cut rawURL ''#'' of
        (u, frag, found) \<Rightarrow>
          (case parse u False of
             Inl err \<Rightarrow> Inl (URLError ''parse'' u err)
           | Inr url \<Rightarrow>
               if frag = [] then Inr url
               else
                 (case setFragment url frag of
                    Inl err \<Rightarrow> Inl (URLError ''parse'' rawURL err)
                  | Inr url' \<Rightarrow> Inr url')))"

subsection \<open>Package net/url: the query\<close>

text \<open>
  \<open>url.Values\<close> is \<open>map[string][]string\<close>; a key that is absent reads as the empty slice.
  \<open>Values.Get\<close> is the first value of the key, or the empty string.
\<close>

type_synonym Values = "string \<Rightarrow> string list"

definition Get :: "Values \<Rightarrow> string \<Rightarrow> string" where
  "Get v key = (case v key of [] \<Rightarrow> [] | x # xs \<Rightarrow> x)"

text \<open>What is left of \<open>query\<close> after its first \<open>&\<close>-separated field.\<close>

definition after_field :: "string \<Rightarrow> string" where
  "after_field query = fst (snd (Cut query ''&''))"

lemma Cut_after_le: "length (fst (snd (Cut s sep))) \<le> length s"
proof (induction s)
  case Nil
  show ?case by simp
next
  case (Cons c cs)
  then show ?case
    by (cases "Cut cs sep") (auto split: bool.splits)
qed

lemma Cut_after_shorter:
  "s \<noteq> [] \<Longrightarrow> sep \<noteq> [] \<Longrightarrow> length (fst (snd (Cut s sep))) < length s"
proof (cases s)
  case Nil
  then show "s \<noteq> [] \<Longrightarrow> ?thesis" by simp
next
  case (Cons c cs)
  assume "sep \<noteq> []"
  then show ?thesis
    using Cut_after_le [of cs sep] unfolding Cons
    by (cases "Cut cs sep") (auto split: bool.splits)
qed

text \<open>
  \<open>url.parseQuery\<close>: the loop over the \<open>&\<close>-separated fields of \<open>query\<close>, with the map
  \<open>m\<close> filled so far and the error \<open>err\<close> kept so far.
\<close>

function parseQuery :: "Values \<Rightarrow> error option \<Rightarrow> string \<Rightarrow> Values \<times> error option" where
  "parseQuery m err query =
     (if query = [] then (m, err)
      else if Contains (fst (Cut query ''&'')) '';'' then
        parseQuery m (Some (ErrorString ''invalid semicolon separator in query''))
          (after_field query)
      else if fst (Cut query ''&'') = [] then parseQuery m err (after_field query)
      else
        (case Cut (fst (Cut query ''&'')) ''='' of
           (k, v, found) \<Rightarrow>
             (case QueryUnescape k of
                Inl err1 \<Rightarrow>
                  parseQuery m (if err = None then Some err1 else err) (after_field query)
              | Inr key \<Rightarrow>
                  (case QueryUnescape v of
                     Inl err1 \<Rightarrow>
                       parseQuery m (if err = None then Some err1 else err) (after_field query)
                   | Inr val \<Rightarrow>
                       parseQuery (m(key := m key @ [val])) err (after_field query)))))"
  by pat_completeness auto
termination
  by (relation "measure (\<lambda>(m, err, query). length query)")
    (auto simp: after_field_def Cut_after_shorter)

declare parseQuery.simps [simp del]

text \<open>\<open>url.ParseQuery\<close>, and \<open>(*URL).Query\<close>, which drops the error.\<close>

definition ParseQuery :: "string \<Rightarrow> Values \<times> error option" where
  "ParseQuery query = parseQuery (\<lambda>k. []) None query"

definition Query :: "URL \<Rightarrow> Values" where
  "Query u = fst (ParseQuery (RawQuery u))"

section \<open>tts (lines 152-157)\<close>

definition base :: string where
  "base = ''https://translate.google.com/translate_tts?client=tw-ob&ie=UTF-8&q=%s&tl=%s''"

definition tts :: "string \<Rightarrow> string \<Rightarrow> error + URL" where
  "tts text lang = Parse (Sprintf base [QueryEscape text, QueryEscape lang])"

section \<open>Speak (lines 36-43)\<close>

text \<open>
  The body of \<open>Speak\<close> with the resolver it calls as the parameter \<open>resolve\<close>, so that
  both branches of line 39 can be stated; \<open>Speak\<close> itself calls \<open>tts\<close>.
\<close>

definition Speak_via ::
  "(string \<Rightarrow> string \<Rightarrow> error + 'u) \<Rightarrow> cast_client \<Rightarrow> ('u \<Rightarrow> string) \<Rightarrow> string \<Rightarrow> string \<Rightarrow>
   error option \<times> effect list" where
  "Speak_via resolve g String text lang =
     (case resolve text lang of
        Inl err \<Rightarrow> (Some err, [])
      | Inr url \<Rightarrow> Play g String url)"

definition Speak ::
  "cast_client \<Rightarrow> (URL \<Rightarrow> string) \<Rightarrow> string \<Rightarrow> string \<Rightarrow> error option \<times> effect list" where
  "Speak g String text lang = Speak_via tts g String text lang"

text \<open>The raw query of the URL that \<open>tts\<close> builds, and the bytes that \<open>QueryEscape\<close> writes.\<close>

definition tts_query :: "string \<Rightarrow> string \<Rightarrow> string" where
  "tts_query text lang =
     ''client=tw-ob&ie=UTF-8&q='' @ QueryEscape text @ ''&tl='' @ QueryEscape lang"

text \<open>The URL that \<open>tts\<close> returns for \<open>text\<close> and \<open>lang\<close>, field by field.\<close>

definition tts_url :: "string \<Rightarrow> string \<Rightarrow> URL" where
  "tts_url text lang =
     \<lparr>Scheme = ''https'', Opaque = [], User = None, Host = ''translate.google.com'',
      Path = ''/translate_tts'', RawPath = [], OmitHost = False, ForceQuery = False,
      RawQuery = ''client=tw-ob&ie=UTF-8&q='' @ QueryEscape text @ ''&tl='' @ QueryEscape lang,
      Fragment = [], RawFragment = []\<rparr>"

definition query_safe :: "char \<Rightarrow> bool" where
  "query_safe c = (\<not> shouldEscape c encodeQueryComponent \<or> c = CHR ''%'' \<or> c = CHR ''+'')"

text \<open>A resolver that always fails, as an example.\<close>

definition failing_resolver :: "string \<Rightarrow> string \<Rightarrow> error + URL" where
  "failing_resolver text lang = Inl (URLError ''parse'' text (ErrorString ''missing protocol scheme''))"

section \<open>Lemmas on the collector and the two-thread model\<close>

subsection \<open>What one field and one entry do to the result slice\<close>

lemma log_add_core [simp]:
  "results (log_add l st) = results st" "allocated (log_add l st) = allocated st"
  by (simp_all add: log_add_def)

lemma handle_field_allocated:
  "allocated (handle_field connect e st f) =
     allocated st + (if HasPrefix f googleHomeModelInfo then 1 else 0)"
  by (simp add: handle_field_def Let_def split: option.split)

lemma handle_field_results:
  "results (handle_field connect e st f) =
     results st @
       (if HasPrefix f googleHomeModelInfo \<and>
           connect (NewClient (AddrV4 e) (Port e) (allocated st)) = None
        then [device_of e (allocated st)] else [])"
  by (simp add: handle_field_def Let_def device_of_def split: option.split)

lemma handle_field_same_core:
  "same_core a b \<Longrightarrow> same_core (handle_field connect e a f) (handle_field connect e b f)"
  by (simp add: same_core_def handle_field_allocated handle_field_results)

lemma fields_same_core:
  "same_core a b \<Longrightarrow>
   same_core (foldl (handle_field connect e) a fs) (foldl (handle_field connect e) b fs)"
  by (induction fs arbitrary: a b) (simp_all add: handle_field_same_core)

lemma handle_entry_same_core:
  "same_core a b \<Longrightarrow> same_core (handle_entry connect a e) (handle_entry connect b e)"
  unfolding handle_entry_def by (rule fields_same_core) (simp add: same_core_def)

lemma collector_same_core:
  "same_core a b \<Longrightarrow> same_core (collector connect a es) (collector connect b es)"
  unfolding collector_def
  by (induction es arbitrary: a b) (simp_all add: handle_entry_same_core)

lemma fields_allocated:
  "allocated (foldl (handle_field connect e) st fs) =
     allocated st + length (filter (\<lambda>f. HasPrefix f googleHomeModelInfo) fs)"
  by (induction fs arbitrary: st) (simp_all add: handle_field_allocated)

lemma handle_entry_allocated:
  "allocated (handle_entry connect st e) = allocated st + marked_fields e"
  by (simp add: handle_entry_def fields_allocated marked_fields_def)

text \<open>The result slice only grows, by appending.\<close>

lemma fields_prefix:
  "prefix (results st) (results (foldl (handle_field connect e) st fs))"
proof (induction fs arbitrary: st)
  case Nil
  show ?case by simp
next
  case (Cons f fs)
  have "prefix (results st) (results (handle_field connect e st f))"
    by (simp add: handle_field_results)
  also have "prefix \<dots> (results (foldl (handle_field connect e) (handle_field connect e st f) fs))"
    by (rule Cons.IH)
  finally show ?case by simp
qed

lemma handle_entry_prefix: "prefix (results st) (results (handle_entry connect st e))"
  using fields_prefix [of "log_add (EntryDetected e) st" connect e "InfoFields e"]
  by (simp add: handle_entry_def)

lemma collector_prefix: "prefix (results st) (results (collector connect st es))"
  unfolding collector_def
proof (induction es arbitrary: st)
  case Nil
  show ?case by simp
next
  case (Cons x xs)
  have "prefix (results st) (results (handle_entry connect st x))"
    by (rule handle_entry_prefix)
  also have "prefix \<dots> (results (foldl (handle_entry connect) (handle_entry connect st x) xs))"
    by (rule Cons.IH)
  finally show ?case by simp
qed

text \<open>
  What the fields of one entry add when the connects attempted for the entry all fail, and
  when they all succeed.
\<close>

lemma fields_all_fail:
  "(\<And>n. allocated st \<le> n \<Longrightarrow>
        n < allocated st + length (filter (\<lambda>f. HasPrefix f googleHomeModelInfo) fs) \<Longrightarrow>
        connect (NewClient (AddrV4 e) (Port e) n) \<noteq> None) \<Longrightarrow>
   results (foldl (handle_field connect e) st fs) = results st"
proof (induction fs arbitrary: st)
  case Nil
  show ?case by simp
next
  case (Cons f fs)
  have here: "results (handle_field connect e st f) = results st"
    using Cons.prems [of "allocated st"] by (auto simp: handle_field_results)
  have "results (foldl (handle_field connect e) (handle_field connect e st f) fs) =
        results (handle_field connect e st f)"
    by (rule Cons.IH) (use Cons.prems in \<open>auto simp: handle_field_allocated split: if_splits\<close>)
  with here show ?case by simp
qed

lemma fields_all_succeed:
  "(\<And>n. allocated st \<le> n \<Longrightarrow>
        n < allocated st + length (filter (\<lambda>f. HasPrefix f googleHomeModelInfo) fs) \<Longrightarrow>
        connect (NewClient (AddrV4 e) (Port e) n) = None) \<Longrightarrow>
   results (foldl (handle_field connect e) st fs) =
     results st @ map (device_of e)
       [allocated st ..< allocated st + length (filter (\<lambda>f. HasPrefix f googleHomeModelInfo) fs)]"
proof (induction fs arbitrary: st)
  case Nil
  show ?case by simp
next
  case (Cons f fs)
  let ?st = "handle_field connect e st f"
  have ih: "results (foldl (handle_field connect e) ?st fs) =
     results ?st @ map (device_of e)
       [allocated ?st ..< allocated ?st + length (filter (\<lambda>f. HasPrefix f googleHomeModelInfo) fs)]"
    by (rule Cons.IH) (use Cons.prems in \<open>auto simp: handle_field_allocated split: if_splits\<close>)
  show ?case
  proof (cases "HasPrefix f googleHomeModelInfo")
    case True
    then have "connect (NewClient (AddrV4 e) (Port e) (allocated st)) = None"
      using Cons.prems [of "allocated st"] by simp
    moreover have "[allocated st ..< allocated st + Suc k] =
        allocated st # [Suc (allocated st) ..< Suc (allocated st) + k]" for k
      using upt_conv_Cons [of "allocated st" "allocated st + Suc k"] by simp
    ultimately show ?thesis
      using True ih by (simp add: handle_field_results handle_field_allocated del: upt_Suc)
  next
    case False
    with ih show ?thesis
      by (simp add: handle_field_results handle_field_allocated)
  qed
qed

subsection \<open>Every device of the result slice is sound\<close>

lemma sound_device_mono: "sound_device connect n d \<Longrightarrow> n \<le> m \<Longrightarrow> sound_device connect m d"
  by (simp add: sound_device_def)

lemma qualifies_iff: "qualifies e = (\<exists>f\<in>set (InfoFields e). HasPrefix f googleHomeModelInfo)"
  by (auto simp: qualifies_def filter_empty_conv)

lemma handle_field_sound:
  assumes "sound_pass connect st" "f \<in> set (InfoFields e)"
  shows "sound_pass connect (handle_field connect e st f)"
proof -
  have old: "list_all (sound_device connect (Suc (allocated st))) (results st)"
    using assms(1) by (auto simp: sound_pass_def list_all_iff intro: sound_device_mono)
  have old': "list_all (sound_device connect (allocated st)) (results st)"
    using assms(1) by (simp add: sound_pass_def)
  have fresh: "allocated st \<notin> (\<lambda>d. ident (client d)) ` set (results st)"
    using assms(1) by (auto simp: sound_pass_def list_all_iff sound_device_def)
  have dist: "distinct (map (\<lambda>d. ident (client d)) (results st))"
    using assms(1) by (simp add: sound_pass_def)
  show ?thesis
    using old old' fresh dist assms(2)
    by (auto simp: sound_pass_def handle_field_results handle_field_allocated device_of_def
        NewClient_def sound_device_def qualifies_iff)
qed

lemma fields_sound:
  "sound_pass connect st \<Longrightarrow> set fs \<subseteq> set (InfoFields e) \<Longrightarrow>
   sound_pass connect (foldl (handle_field connect e) st fs)"
  by (induction fs arbitrary: st) (simp_all add: handle_field_sound)

lemma log_add_sound: "sound_pass connect (log_add l st) = sound_pass connect st"
  by (simp add: sound_pass_def)

lemma handle_entry_sound:
  "sound_pass connect st \<Longrightarrow> sound_pass connect (handle_entry connect st e)"
  unfolding handle_entry_def by (rule fields_sound) (simp_all add: log_add_sound)

lemma collector_sound:
  "sound_pass connect st \<Longrightarrow> sound_pass connect (collector connect st es)"
  unfolding collector_def by (induction es arbitrary: st) (simp_all add: handle_entry_sound)

lemma empty_pass_sound: "sound_pass connect empty_pass"
  by (simp add: sound_pass_def empty_pass_def)

subsection \<open>Invariants of the two-thread model\<close>

text \<open>
  A step of either thread does not change what the collector will have accumulated once
  everything is drained; a returned sequence stays a prefix of the result slice; the channel
  is closed at most once. So whatever LookupAndConnect returns is a prefix of what the
  collector accumulates over the whole stream.
\<close>

lemma drained_cong:
  assumes "same_core (shared s') (shared s)" "pending s' = pending s" "coll s' = coll s"
  shows "same_core (drained connect s') (drained connect s)"
proof (cases "coll s")
  case (Fields e fs)
  with assms show ?thesis
    by (simp add: drained_def collector_same_core fields_same_core)
qed (use assms in \<open>simp_all add: drained_def collector_same_core\<close>)

lemma step_drained:
  "step connect err s s' \<Longrightarrow> same_core (drained connect s') (drained connect s)"
proof (induction rule: step.induct)
  case (lookup_returns s)
  show ?case
    by (rule drained_cong)
      (use lookup_returns in \<open>simp_all add: same_core_def pending_def split: option.split\<close>)
qed (simp_all add: drained_def pending_def collector_def handle_entry_def same_core_def
    split: coll_pc.split)

lemma step_results_prefix:
  "step connect err s s' \<Longrightarrow> prefix (results (shared s)) (results (shared s'))"
  by (induction rule: step.induct) (simp_all add: handle_field_results split: option.split)

lemma step_snapshot:
  "step connect err s s' \<Longrightarrow> snapshot_ok s \<Longrightarrow> snapshot_ok s'"
proof (induction rule: step.induct)
  case (receive s e q)
  then show ?case by (simp add: snapshot_ok_def split: main_pc.splits)
next
  case (field s e f fs)
  have "prefix (results (shared s)) (results (handle_field connect e (shared s) f))"
    by (simp add: handle_field_results)
  with field show ?case
    by (auto simp: snapshot_ok_def split: main_pc.splits intro: prefix_order.trans)
qed (simp_all add: snapshot_ok_def split: main_pc.splits)

lemma step_closes: "step connect err s s' \<Longrightarrow> closes_ok s \<Longrightarrow> closes_ok s'"
  by (induction rule: step.induct) (simp_all add: closes_ok_def split: main_pc.splits)

lemma reachable_invariants:
  assumes "reachable connect err es s"
  shows "same_core (drained connect s) (collector connect empty_pass es) \<and>
         snapshot_ok s \<and> closes_ok s"
  using assms unfolding reachable_def
proof (induction rule: rtranclp_induct)
  case base
  show ?case
    by (simp add: drained_def pending_def start_def same_core_def snapshot_ok_def closes_ok_def)
next
  case (step y z)
  then show ?case
    using step_drained [of connect err y z] step_snapshot [of connect err y z]
      step_closes [of connect err y z]
    by (simp add: same_core_def)
qed

lemma shared_prefix_drained: "prefix (results (shared s)) (results (drained connect s))"
proof -
  let ?st = "case coll s of Fields e fs \<Rightarrow> foldl (handle_field connect e) (shared s) fs
                     | _ \<Rightarrow> shared s"
  have "prefix (results (shared s)) (results ?st)"
    by (simp add: fields_prefix split: coll_pc.split)
  also have "prefix \<dots> (results (collector connect ?st (pending s)))"
    by (rule collector_prefix)
  finally show ?thesis by (simp add: drained_def)
qed

lemma returned_prefix:
  assumes "reachable connect err es s" "main s = Done r"
  shows "prefix r (results (collector connect empty_pass es))"
proof -
  have inv: "same_core (drained connect s) (collector connect empty_pass es)" "snapshot_ok s"
    using reachable_invariants [OF assms(1)] by simp_all
  have "prefix r (results (shared s))"
    using inv(2) assms(2) by (simp add: snapshot_ok_def)
  also have "prefix \<dots> (results (drained connect s))"
    by (rule shared_prefix_drained)
  finally show ?thesis using inv(1) by (simp add: same_core_def)
qed

lemma collector_results_sound:
  "list_all (sound_device connect (allocated (collector connect empty_pass es)))
     (results (collector connect empty_pass es))"
  using collector_sound [OF empty_pass_sound, of connect es] by (simp add: sound_pass_def)

subsection \<open>A qualifying entry whose connects succeed gets a device\<close>

lemma fields_includes:
  assumes "f \<in> set fs" "HasPrefix f googleHomeModelInfo"
    and "\<And>n. connect (NewClient (AddrV4 e) (Port e) n) = None"
  shows "\<exists>n. device_of e n \<in> set (results (foldl (handle_field connect e) st fs))"
proof -
  obtain a b where fs: "fs = a @ f # b"
    using assms(1) by (auto dest: split_list)
  let ?sa = "foldl (handle_field connect e) st a"
  have "device_of e (allocated ?sa) \<in> set (results (handle_field connect e ?sa f))"
    using assms(2,3) by (simp add: handle_field_results)
  moreover have "prefix (results (handle_field connect e ?sa f))
      (results (foldl (handle_field connect e) (handle_field connect e ?sa f) b))"
    by (rule fields_prefix)
  ultimately show ?thesis
    unfolding fs by (auto dest: set_mono_prefix)
qed

lemma collector_includes:
  assumes "e \<in> set es" "qualifies e"
    and "\<And>n. connect (NewClient (AddrV4 e) (Port e) n) = None"
  shows "\<exists>n. device_of e n \<in> set (results (collector connect st es))"
proof -
  obtain a b where es: "es = a @ e # b"
    using assms(1) by (auto dest: split_list)
  obtain f where f: "f \<in> set (InfoFields e)" "HasPrefix f googleHomeModelInfo"
    using assms(2) by (auto simp: qualifies_iff)
  let ?sa = "collector connect st a"
  obtain n where "device_of e n \<in> set (results (handle_entry connect ?sa e))"
    unfolding handle_entry_def
    using fields_includes [of f "InfoFields e" connect e "log_add (EntryDetected e) ?sa"] f assms(3)
    by blast
  moreover have "prefix (results (handle_entry connect ?sa e))
      (results (collector connect (handle_entry connect ?sa e) b))"
    by (rule collector_prefix)
  ultimately show ?thesis
    unfolding es by (auto simp: collector_def dest: set_mono_prefix)
qed

subsection \<open>The example advertisements\<close>

lemma marker_examples:
  "HasPrefix ''md=Google Home'' googleHomeModelInfo"
  "HasPrefix ''md=Google Home Mini'' googleHomeModelInfo"
  "HasPrefix ''md=Google Home Max'' googleHomeModelInfo"
  "\<not> HasPrefix ''md=Chromecast'' googleHomeModelInfo"
  "\<not> HasPrefix ''id=4f1c'' googleHomeModelInfo"
  "\<not> HasPrefix ''id=77aa'' googleHomeModelInfo"
  "\<not> HasPrefix ''fn=Kitchen'' googleHomeModelInfo"
  "\<not> HasPrefix ''fn=Hall'' googleHomeModelInfo"
  by (simp_all add: HasPrefix_def googleHomeModelInfo_def)

lemma fields_unmarked:
  "filter (\<lambda>f. HasPrefix f googleHomeModelInfo) fs = [] \<Longrightarrow>
   foldl (handle_field connect e) st fs = st"
  by (induction fs) (simp_all add: handle_field_def split: if_splits)

lemma marked_examples:
  "marked_fields twice_entry = Suc (Suc 0)" "marked_fields broken_entry = Suc 0"
  "qualifies home_entry"
  by (simp_all add: marked_fields_def qualifies_def twice_entry_def broken_entry_def
      home_entry_def marker_examples)

text \<open>
  The model has the run one expects, too: when the collector handles the entry before the
  main thread returns, the device is in the sequence returned.
\<close>

lemma return_after_drain:
  "\<exists>s. reachable always_up None [home_entry] s \<and> main s = Done [device_of home_entry 0] \<and>
       chan s = [] \<and> closes s = 1"
proof -
  define p0 where "p0 = log_add (EntryDetected home_entry) empty_pass"
  define p1 where "p1 = handle_field always_up home_entry p0 ''id=4f1c''"
  define p2 where "p2 = handle_field always_up home_entry p1 ''md=Google Home''"
  define p3 where "p3 = handle_field always_up home_entry p2 ''fn=Kitchen''"
  define s1 where "s1 = \<lparr>chan = [home_entry], closes = 0, shared = empty_pass,
    main = Lookup [], coll = Receive\<rparr>"
  define s2 where "s2 = \<lparr>chan = [], closes = 0, shared = p0, main = Lookup [],
    coll = Fields home_entry [''id=4f1c'', ''md=Google Home'', ''fn=Kitchen'']\<rparr>"
  define s3 where "s3 = \<lparr>chan = [], closes = 0, shared = p1, main = Lookup [],
    coll = Fields home_entry [''md=Google Home'', ''fn=Kitchen'']\<rparr>"
  define s4 where "s4 = \<lparr>chan = [], closes = 0, shared = p2, main = Lookup [],
    coll = Fields home_entry [''fn=Kitchen'']\<rparr>"
  define s5 where "s5 = \<lparr>chan = [], closes = 0, shared = p3, main = Lookup [],
    coll = Fields home_entry []\<rparr>"
  define s6 where "s6 = \<lparr>chan = [], closes = 0, shared = p3, main = Lookup [],
    coll = Receive\<rparr>"
  define s7 where "s7 = \<lparr>chan = [], closes = 0, shared = p3, main = Close,
    coll = Receive\<rparr>"
  define s8 where "s8 = \<lparr>chan = [], closes = Suc 0, shared = p3, main = Return,
    coll = Receive\<rparr>"
  define s9 where "s9 = \<lparr>chan = [], closes = Suc 0, shared = p3,
    main = Done [device_of home_entry 0], coll = Receive\<rparr>"
  have p3: "results p3 = [device_of home_entry 0]"
    by (simp add: p3_def p2_def p1_def p0_def handle_field_results marker_examples
        handle_field_allocated always_up_def empty_pass_def)
  have 1: "step always_up None (start [home_entry]) s1"
    using step.send [of "start [home_entry]" home_entry "[]" always_up None]
    by (simp add: start_def entriesCh_cap_def s1_def)
  have 2: "step always_up None s1 s2"
    using step.receive [of s1 home_entry "[]" always_up None]
    by (simp add: s1_def s2_def p0_def) (simp add: home_entry_def)
  have 3: "step always_up None s2 s3"
    using step.field [of s2 home_entry "''id=4f1c''" _ always_up None]
    by (simp add: s2_def s3_def p1_def)
  have 4: "step always_up None s3 s4"
    using step.field [of s3 home_entry "''md=Google Home''" _ always_up None]
    by (simp add: s3_def s4_def p2_def)
  have 5: "step always_up None s4 s5"
    using step.field [of s4 home_entry "''fn=Kitchen''" _ always_up None]
    by (simp add: s4_def s5_def p3_def)
  have 6: "step always_up None s5 s6"
    using step.fields_done [of s5 home_entry always_up None] by (simp add: s5_def s6_def)
  have 7: "step always_up None s6 s7"
    using step.lookup_returns [of s6 always_up None] by (simp add: s6_def s7_def)
  have 8: "step always_up None s7 s8"
    using step.close [of s7 always_up None] by (simp add: s7_def s8_def)
  have 9: "step always_up None s8 s9"
    using step.return [of s8 always_up None] by (simp add: s8_def s9_def p3)
  have "rtranclp (step always_up None) (start [home_entry]) s1"
    using 1 by (rule r_into_rtranclp)
  then have "rtranclp (step always_up None) (start [home_entry]) s2"
    using 2 by (rule rtranclp.rtrancl_into_rtrancl)
  then have "rtranclp (step always_up None) (start [home_entry]) s3"
    using 3 by (rule rtranclp.rtrancl_into_rtrancl)
  then have "rtranclp (step always_up None) (start [home_entry]) s4"
    using 4 by (rule rtranclp.rtrancl_into_rtrancl)
  then have "rtranclp (step always_up None) (start [home_entry]) s5"
    using 5 by (rule rtranclp.rtrancl_into_rtrancl)
  then have "rtranclp (step always_up None) (start [home_entry]) s6"
    using 6 by (rule rtranclp.rtrancl_into_rtrancl)
  then have "rtranclp (step always_up None) (start [home_entry]) s7"
    using 7 by (rule rtranclp.rtrancl_into_rtrancl)
  then have "rtranclp (step always_up None) (start [home_entry]) s8"
    using 8 by (rule rtranclp.rtrancl_into_rtrancl)
  then have "rtranclp (step always_up None) (start [home_entry]) s9"
    using 9 by (rule rtranclp.rtrancl_into_rtrancl)
  then have r: "reachable always_up None [home_entry] s9"
    by (simp only: reachable_def)
  have v: "main s9 = Done [device_of home_entry 0] \<and> chan s9 = [] \<and> closes s9 = 1"
    by (simp add: s9_def)
  from r v show ?thesis
    by (intro exI [of _ s9] conjI) simp_all
qed

subsection \<open>What holds of the collector and of every returned sequence\<close>

text \<open>
  Every device of a sequence that LookupAndConnect returns, under any interleaving, has a
  qualifying entry and a client that connected without error to that entry's address.
\<close>

lemma returned_devices_sound:
  assumes "reachable connect err es s" "main s = Done r"
  shows "\<forall>d\<in>set r. qualifies (entry d) \<and> connect (client d) = None \<and>
           host (client d) = AddrV4 (entry d) \<and> port (client d) = Port (entry d)"
  using returned_prefix [OF assms] collector_results_sound [of connect es]
  by (auto simp: list_all_iff sound_device_def dest: set_mono_prefix)

text \<open>
  On the slice that the collector accumulates over the stream: a connect that fails (lines
  133-136) adds a log line and no device, and the loop goes on with the next field; when
  every connect attempted for entry \<open>e\<close> fails, \<open>e\<close> adds no device, the collector goes on
  with the entries after \<open>e\<close>, and every later qualifying entry whose connects succeed has a
  connected device in the slice.
\<close>

lemma collector_skips_failed_connect:
  assumes "\<forall>n. allocated (collector connect st es1) \<le> n \<and>
               n < allocated (collector connect st es1) + marked_fields e \<longrightarrow>
               connect (NewClient (AddrV4 e) (Port e) n) \<noteq> None"
  shows "(\<forall>st' f x. HasPrefix f googleHomeModelInfo \<and>
            connect (NewClient (AddrV4 e) (Port e) (allocated st')) = Some x \<longrightarrow>
            handle_field connect e st' f =
              log_add (ConnectFailed x) (st'\<lparr>allocated := Suc (allocated st')\<rparr>)) \<and>
         results (handle_entry connect (collector connect st es1) e) =
           results (collector connect st es1) \<and>
         collector connect st (es1 @ e # es2) =
           collector connect (handle_entry connect (collector connect st es1) e) es2 \<and>
         (\<forall>e'\<in>set es2. qualifies e' \<and> (\<forall>n. connect (NewClient (AddrV4 e') (Port e') n) = None) \<longrightarrow>
            (\<exists>d\<in>set (results (collector connect st (es1 @ e # es2))).
               entry d = e' \<and> connect (client d) = None))"
proof -
  let ?s1 = "collector connect st es1"
  have first: "results (handle_entry connect ?s1 e) = results ?s1"
    unfolding handle_entry_def
    using fields_all_fail [of "log_add (EntryDetected e) ?s1" "InfoFields e" connect e] assms
    by (simp add: marked_fields_def)
  have second: "collector connect st (es1 @ e # es2) = collector connect (handle_entry connect ?s1 e) es2"
    by (simp add: collector_def)
  have third: "\<exists>d\<in>set (results (collector connect st (es1 @ e # es2))).
      entry d = e' \<and> connect (client d) = None"
    if a: "e' \<in> set es2" "qualifies e'" "\<forall>n. connect (NewClient (AddrV4 e') (Port e') n) = None" for e'
  proof -
    have up: "connect (NewClient (AddrV4 e') (Port e') n) = None" for n
      using a(3) by simp
    obtain n where "device_of e' n \<in> set (results (collector connect (handle_entry connect ?s1 e) es2))"
      using collector_includes [of e' es2 connect "handle_entry connect ?s1 e"] a(1) a(2) up
      by blast
    with a(3) show ?thesis
      unfolding second by (rule_tac x = "device_of e' n" in bexI) (simp_all add: device_of_def)
  qed
  have zeroth: "handle_field connect e st' f =
      log_add (ConnectFailed x) (st'\<lparr>allocated := Suc (allocated st')\<rparr>)"
    if "HasPrefix f googleHomeModelInfo"
      "connect (NewClient (AddrV4 e) (Port e) (allocated st')) = Some x" for st' f x
    using that by (simp add: handle_field_def Let_def)
  from zeroth first second third show ?thesis by blast
qed

lemma collector_skips_failed_connect_example:
  "results (handle_entry attic_down (collector attic_down empty_pass []) broken_entry) = [] \<and>
   (\<exists>d\<in>set (results (collector attic_down empty_pass ([] @ broken_entry # [home_entry]))).
      entry d = home_entry \<and> attic_down (client d) = None)"
proof -
  have down: "\<forall>n. allocated (collector attic_down empty_pass []) \<le> n \<and>
      n < allocated (collector attic_down empty_pass []) + marked_fields broken_entry \<longrightarrow>
      attic_down (NewClient (AddrV4 broken_entry) (Port broken_entry) n) \<noteq> None"
    by (simp add: attic_down_def NewClient_def broken_entry_def)
  have up: "\<forall>n. attic_down (NewClient (AddrV4 home_entry) (Port home_entry) n) = None"
    by (simp add: attic_down_def NewClient_def home_entry_def)
  note t = collector_skips_failed_connect [OF down, of "[home_entry]"]
  have "results (handle_entry attic_down (collector attic_down empty_pass []) broken_entry) =
      results (collector attic_down empty_pass [])"
    using t by blast
  then have a: "results (handle_entry attic_down (collector attic_down empty_pass []) broken_entry) = []"
    by (simp add: collector_def empty_pass_def)
  have b: "\<exists>d\<in>set (results (collector attic_down empty_pass ([] @ broken_entry # [home_entry]))).
      entry d = home_entry \<and> attic_down (client d) = None"
  proof -
    have "\<forall>e'\<in>set [home_entry].
        qualifies e' \<and> (\<forall>n. attic_down (NewClient (AddrV4 e') (Port e') n) = None) \<longrightarrow>
        (\<exists>d\<in>set (results (collector attic_down empty_pass ([] @ broken_entry # [home_entry]))).
           entry d = e' \<and> attic_down (client d) = None)"
      using t by (elim conjE)
    then show ?thesis
      using up marked_examples(3) by simp
  qed
  from a b show ?thesis by (rule conjI)
qed

text \<open>
  The collector allocates and connects one client per descriptor field that starts with the
  marker (lines 130-132), not one per entry: an entry with \<open>k\<close> marked fields is given \<open>k\<close>
  clients, and when their connects all succeed it adds \<open>k\<close> devices with pairwise distinct
  clients to the slice, in field order.
\<close>

lemma collector_device_per_marked_field:
  assumes "\<forall>n. allocated st \<le> n \<and> n < allocated st + marked_fields e \<longrightarrow>
               connect (NewClient (AddrV4 e) (Port e) n) = None"
  shows "results (handle_entry connect st e) =
           results st @ map (device_of e) [allocated st ..< allocated st + marked_fields e] \<and>
         allocated (handle_entry connect st e) = allocated st + marked_fields e \<and>
         distinct (map client (map (device_of e) [allocated st ..< allocated st + marked_fields e])) \<and>
         length (map (device_of e) [allocated st ..< allocated st + marked_fields e]) = marked_fields e"
proof -
  have "results (handle_entry connect st e) =
      results st @ map (device_of e) [allocated st ..< allocated st + marked_fields e]"
    unfolding handle_entry_def
    using fields_all_succeed [of "log_add (EntryDetected e) st" "InfoFields e" connect e] assms
    by (simp add: marked_fields_def)
  moreover have "distinct (map client (map (device_of e) [allocated st ..< allocated st + marked_fields e]))"
    by (simp add: distinct_map inj_on_def device_of_def NewClient_def)
  ultimately show ?thesis
    by (simp add: handle_entry_allocated)
qed

lemma collector_device_per_marked_field_example:
  "results (handle_entry always_up empty_pass twice_entry) =
     [device_of twice_entry 0, device_of twice_entry (Suc 0)] \<and>
   allocated (handle_entry always_up empty_pass twice_entry) = Suc (Suc 0)"
proof -
  have up: "\<forall>n. allocated empty_pass \<le> n \<and> n < allocated empty_pass + marked_fields twice_entry \<longrightarrow>
      always_up (NewClient (AddrV4 twice_entry) (Port twice_entry) n) = None"
    by (simp add: always_up_def)
  have z: "results empty_pass = []" "allocated empty_pass = 0"
    by (simp_all add: empty_pass_def)
  show ?thesis
    using collector_device_per_marked_field [OF up] by (simp add: marked_examples z upt_rec)
qed
section \<open>Properties of the discovery pass\<close>

text \<open>
  Claim C4. An entry none of whose descriptor fields starts with \<open>md=Google Home\<close> is only
  logged by the collector: no client is allocated and nothing is appended for it. No device
  of the collector's result slice has it as its entry, and neither has any device of a
  sequence that LookupAndConnect returns, under any interleaving of the two threads.
\<close>

theorem unmarked_entry_yields_no_device:
  assumes "\<not> qualifies e"
  shows "handle_entry connect st e = log_add (EntryDetected e) st \<and>
         (\<forall>d\<in>set (results (collector connect empty_pass es)). entry d \<noteq> e) \<and>
         (\<forall>s r. reachable connect err es s \<and> main s = Done r \<longrightarrow> (\<forall>d\<in>set r. entry d \<noteq> e))"
proof -
  have first: "handle_entry connect st e = log_add (EntryDetected e) st"
    using assms by (simp add: handle_entry_def qualifies_def fields_unmarked)
  have second: "\<forall>d\<in>set (results (collector connect empty_pass es)). entry d \<noteq> e"
    using collector_results_sound [of connect es] assms
    by (auto simp: list_all_iff sound_device_def)
  have third: "\<forall>d\<in>set r. entry d \<noteq> e" if "reachable connect err es s" "main s = Done r" for s r
    using returned_prefix [OF that] second by (auto dest: set_mono_prefix)
  from first second third show ?thesis by blast
qed

theorem unmarked_entry_yields_no_device_witness:
  "\<not> qualifies tv_entry \<and>
   handle_entry always_up empty_pass tv_entry = log_add (EntryDetected tv_entry) empty_pass \<and>
   results (collector always_up empty_pass [tv_entry]) = []"
proof -
  have q: "\<not> qualifies tv_entry"
    by (simp add: qualifies_def tv_entry_def marker_examples)
  have c: "collector always_up empty_pass [tv_entry] = handle_entry always_up empty_pass tv_entry"
    by (simp add: collector_def)
  have h: "handle_entry always_up empty_pass tv_entry = log_add (EntryDetected tv_entry) empty_pass"
    using unmarked_entry_yields_no_device [OF q, of always_up empty_pass "[tv_entry]" None]
    by simp
  have "results (collector always_up empty_pass [tv_entry]) = results empty_pass"
    by (simp add: c h)
  then have "results (collector always_up empty_pass [tv_entry]) = []"
    by (simp add: empty_pass_def)
  with q h show ?thesis by simp
qed

text \<open>
  Claim C5 fails on the code, by the defect of claim C1: the return does not wait for the
  collector. In the run below the stream is an entry whose connect fails, then a healthy
  qualifying entry. The collector handles the failure as the claim says (it logs it, adds
  no device and goes back to receive); the main thread then closes the channel and returns
  the empty slice while the healthy entry is still in the channel. The healthy device, which
  the collector would add on draining the channel, is not in the sequence returned.
\<close>

theorem healthy_device_missed_on_early_return:
  "\<exists>s. reachable attic_down None [broken_entry, home_entry] s \<and> main s = Done [] \<and>
       chan s = [home_entry] \<and> coll s = Receive \<and>
       logged (shared s) =
         [EntryDetected broken_entry, ConnectFailed (ErrorString ''i/o timeout'')] \<and>
       qualifies home_entry \<and>
       attic_down (NewClient (AddrV4 home_entry) (Port home_entry) (Suc 0)) = None \<and>
       results (collector attic_down empty_pass [broken_entry, home_entry]) =
         [device_of home_entry (Suc 0)]"
proof -
  define p0 where "p0 = log_add (EntryDetected broken_entry) empty_pass"
  define p1 where "p1 = handle_field attic_down broken_entry p0 ''md=Google Home Mini''"
  define s1 where "s1 = \<lparr>chan = [broken_entry], closes = 0, shared = empty_pass,
    main = Lookup [home_entry], coll = Receive\<rparr>"
  define s2 where "s2 = \<lparr>chan = [broken_entry, home_entry], closes = 0, shared = empty_pass,
    main = Lookup [], coll = Receive\<rparr>"
  define s3 where "s3 = \<lparr>chan = [home_entry], closes = 0, shared = p0,
    main = Lookup [], coll = Fields broken_entry [''md=Google Home Mini'']\<rparr>"
  define s4 where "s4 = \<lparr>chan = [home_entry], closes = 0, shared = p1,
    main = Lookup [], coll = Fields broken_entry []\<rparr>"
  define s5 where "s5 = \<lparr>chan = [home_entry], closes = 0, shared = p1,
    main = Lookup [], coll = Receive\<rparr>"
  define s6 where "s6 = \<lparr>chan = [home_entry], closes = 0, shared = p1,
    main = Close, coll = Receive\<rparr>"
  define s7 where "s7 = \<lparr>chan = [home_entry], closes = Suc 0, shared = p1,
    main = Return, coll = Receive\<rparr>"
  define s8 where "s8 = \<lparr>chan = [home_entry], closes = Suc 0, shared = p1,
    main = Done [], coll = Receive\<rparr>"
  have p1: "results p1 = []"
    "logged p1 = [EntryDetected broken_entry, ConnectFailed (ErrorString ''i/o timeout'')]"
    by (simp_all add: p1_def p0_def handle_field_def marker_examples attic_down_def
        NewClient_def log_add_def empty_pass_def Let_def) (simp_all add: broken_entry_def)
  have 1: "step attic_down None (start [broken_entry, home_entry]) s1"
    using step.send [of "start [broken_entry, home_entry]" broken_entry "[home_entry]"
        attic_down None]
    by (simp add: start_def entriesCh_cap_def s1_def)
  have 2: "step attic_down None s1 s2"
    using step.send [of s1 home_entry "[]" attic_down None]
    by (simp add: entriesCh_cap_def s1_def s2_def)
  have 3: "step attic_down None s2 s3"
    using step.receive [of s2 broken_entry "[home_entry]" attic_down None]
    by (simp add: s2_def s3_def p0_def) (simp add: broken_entry_def)
  have 4: "step attic_down None s3 s4"
    using step.field [of s3 broken_entry "''md=Google Home Mini''" "[]" attic_down None]
    by (simp add: s3_def s4_def p1_def)
  have 5: "step attic_down None s4 s5"
    using step.fields_done [of s4 broken_entry attic_down None] by (simp add: s4_def s5_def)
  have 6: "step attic_down None s5 s6"
    using step.lookup_returns [of s5 attic_down None] by (simp add: s5_def s6_def)
  have 7: "step attic_down None s6 s7"
    using step.close [of s6 attic_down None] by (simp add: s6_def s7_def)
  have 8: "step attic_down None s7 s8"
    using step.return [of s7 attic_down None] by (simp add: s7_def s8_def p1)
  have "rtranclp (step attic_down None) (start [broken_entry, home_entry]) s1"
    using 1 by (rule r_into_rtranclp)
  then have "rtranclp (step attic_down None) (start [broken_entry, home_entry]) s2"
    using 2 by (rule rtranclp.rtrancl_into_rtrancl)
  then have "rtranclp (step attic_down None) (start [broken_entry, home_entry]) s3"
    using 3 by (rule rtranclp.rtrancl_into_rtrancl)
  then have "rtranclp (step attic_down None) (start [broken_entry, home_entry]) s4"
    using 4 by (rule rtranclp.rtrancl_into_rtrancl)
  then have "rtranclp (step attic_down None) (start [broken_entry, home_entry]) s5"
    using 5 by (rule rtranclp.rtrancl_into_rtrancl)
  then have "rtranclp (step attic_down None) (start [broken_entry, home_entry]) s6"
    using 6 by (rule rtranclp.rtrancl_into_rtrancl)
  then have "rtranclp (step attic_down None) (start [broken_entry, home_entry]) s7"
    using 7 by (rule rtranclp.rtrancl_into_rtrancl)
  then have "rtranclp (step attic_down None) (start [broken_entry, home_entry]) s8"
    using 8 by (rule rtranclp.rtrancl_into_rtrancl)
  then have r: "reachable attic_down None [broken_entry, home_entry] s8"
    by (simp only: reachable_def)
  have v: "main s8 = Done [] \<and> chan s8 = [home_entry] \<and> coll s8 = Receive \<and>
      logged (shared s8) =
        [EntryDetected broken_entry, ConnectFailed (ErrorString ''i/o timeout'')]"
    by (simp add: s8_def p1)
  have h: "qualifies home_entry \<and>
      attic_down (NewClient (AddrV4 home_entry) (Port home_entry) (Suc 0)) = None"
    using marked_examples(3) by (simp add: attic_down_def NewClient_def home_entry_def)
  have c: "results (collector attic_down empty_pass [broken_entry, home_entry]) =
      [device_of home_entry (Suc 0)]"
    by (simp add: collector_def handle_entry_def home_entry_def broken_entry_def
        handle_field_def marker_examples attic_down_def NewClient_def empty_pass_def
        device_of_def log_add_def Let_def)
  from r v h c show ?thesis
    by (intro exI [of _ s8] conjI) simp_all
qed

text \<open>
  Claim C10 fails on the code, by the defect of claim C1: the return does not wait for the
  collector. In the run below the entry has two marked fields and both connects succeed;
  the main thread returns when the collector has handled the first marked field only, so
  the sequence returned has one device of the entry, not two. The collector, left to
  finish, adds one device per marked field.
\<close>

theorem second_device_missed_on_early_return:
  "\<exists>s. reachable always_up None [twice_entry] s \<and>
       main s = Done [device_of twice_entry 0] \<and>
       coll s = Fields twice_entry [''fn=Hall'', ''md=Google Home Max''] \<and>
       marked_fields twice_entry = Suc (Suc 0) \<and>
       always_up (NewClient (AddrV4 twice_entry) (Port twice_entry) 0) = None \<and>
       always_up (NewClient (AddrV4 twice_entry) (Port twice_entry) (Suc 0)) = None \<and>
       results (collector always_up empty_pass [twice_entry]) =
         [device_of twice_entry 0, device_of twice_entry (Suc 0)]"
proof -
  define p0 where "p0 = log_add (EntryDetected twice_entry) empty_pass"
  define p1 where "p1 = handle_field always_up twice_entry p0 ''md=Google Home''"
  define s1 where "s1 = \<lparr>chan = [twice_entry], closes = 0, shared = empty_pass,
    main = Lookup [], coll = Receive\<rparr>"
  define s2 where "s2 = \<lparr>chan = [], closes = 0, shared = p0, main = Lookup [],
    coll = Fields twice_entry [''md=Google Home'', ''fn=Hall'', ''md=Google Home Max'']\<rparr>"
  define s3 where "s3 = \<lparr>chan = [], closes = 0, shared = p1, main = Lookup [],
    coll = Fields twice_entry [''fn=Hall'', ''md=Google Home Max'']\<rparr>"
  define s4 where "s4 = \<lparr>chan = [], closes = 0, shared = p1, main = Close,
    coll = Fields twice_entry [''fn=Hall'', ''md=Google Home Max'']\<rparr>"
  define s5 where "s5 = \<lparr>chan = [], closes = Suc 0, shared = p1, main = Return,
    coll = Fields twice_entry [''fn=Hall'', ''md=Google Home Max'']\<rparr>"
  define s6 where "s6 = \<lparr>chan = [], closes = Suc 0, shared = p1,
    main = Done [device_of twice_entry 0],
    coll = Fields twice_entry [''fn=Hall'', ''md=Google Home Max'']\<rparr>"
  have p1: "results p1 = [device_of twice_entry 0]"
    by (simp add: p1_def p0_def handle_field_results marker_examples always_up_def
        empty_pass_def)
  have 1: "step always_up None (start [twice_entry]) s1"
    using step.send [of "start [twice_entry]" twice_entry "[]" always_up None]
    by (simp add: start_def entriesCh_cap_def s1_def)
  have 2: "step always_up None s1 s2"
    using step.receive [of s1 twice_entry "[]" always_up None]
    by (simp add: s1_def s2_def p0_def) (simp add: twice_entry_def)
  have 3: "step always_up None s2 s3"
    using step.field [of s2 twice_entry "''md=Google Home''" _ always_up None]
    by (simp add: s2_def s3_def p1_def)
  have 4: "step always_up None s3 s4"
    using step.lookup_returns [of s3 always_up None] by (simp add: s3_def s4_def)
  have 5: "step always_up None s4 s5"
    using step.close [of s4 always_up None] by (simp add: s4_def s5_def)
  have 6: "step always_up None s5 s6"
    using step.return [of s5 always_up None] by (simp add: s5_def s6_def p1)
  have "rtranclp (step always_up None) (start [twice_entry]) s1"
    using 1 by (rule r_into_rtranclp)
  then have "rtranclp (step always_up None) (start [twice_entry]) s2"
    using 2 by (rule rtranclp.rtrancl_into_rtrancl)
  then have "rtranclp (step always_up None) (start [twice_entry]) s3"
    using 3 by (rule rtranclp.rtrancl_into_rtrancl)
  then have "rtranclp (step always_up None) (start [twice_entry]) s4"
    using 4 by (rule rtranclp.rtrancl_into_rtrancl)
  then have "rtranclp (step always_up None) (start [twice_entry]) s5"
    using 5 by (rule rtranclp.rtrancl_into_rtrancl)
  then have "rtranclp (step always_up None) (start [twice_entry]) s6"
    using 6 by (rule rtranclp.rtrancl_into_rtrancl)
  then have r: "reachable always_up None [twice_entry] s6"
    by (simp only: reachable_def)
  have v: "main s6 = Done [device_of twice_entry 0] \<and>
      coll s6 = Fields twice_entry [''fn=Hall'', ''md=Google Home Max'']"
    by (simp add: s6_def)
  have h: "marked_fields twice_entry = Suc (Suc 0) \<and>
      always_up (NewClient (AddrV4 twice_entry) (Port twice_entry) 0) = None \<and>
      always_up (NewClient (AddrV4 twice_entry) (Port twice_entry) (Suc 0)) = None"
    by (simp add: marked_examples always_up_def)
  have c: "results (collector always_up empty_pass [twice_entry]) =
      [device_of twice_entry 0, device_of twice_entry (Suc 0)]"
    by (simp add: collector_def handle_entry_def twice_entry_def handle_field_def
        marker_examples always_up_def empty_pass_def device_of_def log_add_def Let_def)
  from r v h c show ?thesis
    by (intro exI [of _ s6] conjI) simp_all
qed

text \<open>
  Claim C6. Whatever \<open>mdns.Lookup\<close> returns (\<open>err\<close> is arbitrary: \<open>nil\<close> or an error), the
  main thread goes on from the return of the lookup call through lines 144-149 and returns
  the result slice as it is at that point. The value returned is a list of devices: the
  function has no error result.
\<close>

theorem lookup_error_not_propagated:
  "\<exists>s1 s2 s3.
     step connect err (s\<lparr>main := Lookup []\<rparr>) s1 \<and> step connect err s1 s2 \<and>
     step connect err s2 s3 \<and>
     main s3 = Done (results (shared s)) \<and> closes s3 = Suc (closes s) \<and>
     chan s3 = chan s \<and> coll s3 = coll s"
proof -
  let ?s0 = "s\<lparr>main := Lookup []\<rparr>"
  let ?s1 = "?s0\<lparr>shared := (case err of None \<Rightarrow> shared ?s0
                      | Some x \<Rightarrow> log_add (LookupFailed x) (shared ?s0)), main := Close\<rparr>"
  let ?s2 = "?s1\<lparr>closes := Suc (closes ?s1), main := Return\<rparr>"
  let ?s3 = "?s2\<lparr>main := Done (results (shared ?s2))\<rparr>"
  have "step connect err ?s0 ?s1" by (rule step.lookup_returns) simp
  moreover have "step connect err ?s1 ?s2" by (rule step.close) simp
  moreover have "step connect err ?s2 ?s3" by (rule step.return) simp
  moreover have "main ?s3 = Done (results (shared s))" by (simp split: option.split)
  moreover have "closes ?s3 = Suc (closes s)" "chan ?s3 = chan s" "coll ?s3 = coll s" by simp_all
  ultimately show ?thesis by blast
qed

text \<open>
  Claim C1 fails on the code. Nothing makes the main thread wait for the goroutine between
  \<open>close(entriesCh)\<close> (line 147) and \<open>return results\<close> (line 149). In the run below the
  lookup call delivers one qualifying entry, whose connect would succeed; the main thread
  closes the channel and returns the empty slice while the entry is still in the channel.
  The collector, had it drained the channel, would have produced one device.
\<close>

theorem return_before_drain:
  "\<exists>s. reachable always_up None [home_entry] s \<and> main s = Done [] \<and>
       chan s = [home_entry] \<and> coll s = Receive \<and> closes s = 1 \<and>
       results (collector always_up empty_pass [home_entry]) = [device_of home_entry 0]"
proof -
  define s1 where "s1 = \<lparr>chan = [home_entry], closes = 0, shared = empty_pass,
    main = Lookup [], coll = Receive\<rparr>"
  define s2 where "s2 = \<lparr>chan = [home_entry], closes = 0, shared = empty_pass,
    main = Close, coll = Receive\<rparr>"
  define s3 where "s3 = \<lparr>chan = [home_entry], closes = Suc 0, shared = empty_pass,
    main = Return, coll = Receive\<rparr>"
  define s4 where "s4 = \<lparr>chan = [home_entry], closes = Suc 0, shared = empty_pass,
    main = Done [], coll = Receive\<rparr>"
  have 1: "step always_up None (start [home_entry]) s1"
    using step.send [of "start [home_entry]" home_entry "[]" always_up None]
    by (simp add: start_def entriesCh_cap_def s1_def)
  have 2: "step always_up None s1 s2"
    using step.lookup_returns [of s1 always_up None] by (simp add: s1_def s2_def)
  have 3: "step always_up None s2 s3"
    using step.close [of s2 always_up None] by (simp add: s2_def s3_def)
  have 4: "step always_up None s3 s4"
    using step.return [of s3 always_up None] by (simp add: s3_def s4_def empty_pass_def)
  have "rtranclp (step always_up None) (start [home_entry]) s1"
    using 1 by (rule r_into_rtranclp)
  then have "rtranclp (step always_up None) (start [home_entry]) s2"
    using 2 by (rule rtranclp.rtrancl_into_rtrancl)
  then have "rtranclp (step always_up None) (start [home_entry]) s3"
    using 3 by (rule rtranclp.rtrancl_into_rtrancl)
  then have "rtranclp (step always_up None) (start [home_entry]) s4"
    using 4 by (rule rtranclp.rtrancl_into_rtrancl)
  then have r: "reachable always_up None [home_entry] s4"
    by (simp only: reachable_def)
  have v: "main s4 = Done [] \<and> chan s4 = [home_entry] \<and> coll s4 = Receive \<and> closes s4 = 1"
    by (simp add: s4_def)
  have c: "results (collector always_up empty_pass [home_entry]) = [device_of home_entry 0]"
    by (simp add: collector_def handle_entry_def home_entry_def handle_field_def marker_examples
        always_up_def empty_pass_def device_of_def log_add_def)
  from r v c show ?thesis
    by (intro exI [of _ s4] conjI) simp_all
qed
section \<open>Lemmas on escaping, parsing and the query\<close>

subsection \<open>QueryUnescape inverts QueryEscape\<close>

lemma upperhex_table:
  "list_all (\<lambda>n. ishex (upperhex ! n) \<and> unhex (upperhex ! n) = n \<and>
       upperhex ! n \<noteq> CHR ''%'' \<and> upperhex ! n \<noteq> CHR ''+'' \<and>
       \<not> shouldEscape (upperhex ! n) encodeQueryComponent) [0 ..< 16]"
  by code_simp

lemma upperhex_digit:
  assumes "n < 16"
  shows "ishex (upperhex ! n) \<and> unhex (upperhex ! n) = n \<and>
         upperhex ! n \<noteq> CHR ''%'' \<and> upperhex ! n \<noteq> CHR ''+''"
  using upperhex_table assms unfolding list_all_iff by simp

lemma byte_nibbles: "char_of (byte c div 16 * 16 + byte c mod 16) = c"
  by (simp add: byte_def)

lemma byte_div_16: "byte c div 16 < 16"
proof -
  have "(of_char c :: nat) < 256" by simp
  then show ?thesis unfolding byte_def by arith
qed

lemma shouldEscape_query:
  "shouldEscape c encodeQueryComponent =
     (\<not> (in_range CHR ''a'' CHR ''z'' c \<or> in_range CHR ''A'' CHR ''Z'' c \<or>
         in_range CHR ''0'' CHR ''9'' c \<or> c \<in> set ''-_.~''))"
  by (simp add: shouldEscape_def)

lemma query_safe_facts:
  assumes "query_safe c"
  shows "c \<noteq> CHR ''#''" "c \<noteq> CHR ''?''" "c \<noteq> CHR ''&''" "c \<noteq> CHR ''=''" "c \<noteq> CHR '';''"
    "\<not> (byte c < 0x20 \<or> byte c = 0x7f)"
  using assms
  by (auto simp: query_safe_def shouldEscape_query in_range_def byte_def)

lemma upperhex_safe: "n < 16 \<Longrightarrow> query_safe (upperhex ! n)"
  using upperhex_table unfolding list_all_iff by (simp add: query_safe_def)

lemma QueryEscape_safe: "list_all query_safe (QueryEscape s)"
  unfolding QueryEscape_def
proof (induction s)
  case Nil
  show ?case by simp
next
  case (Cons c cs)
  have "query_safe (upperhex ! (byte c div 16))" "query_safe (upperhex ! (byte c mod 16))"
    by (simp_all add: upperhex_safe byte_div_16)
  with Cons show ?case
    by (simp add: query_safe_def)
qed

lemma check_escape: "unescape_check encodeQueryComponent (escape s encodeQueryComponent) = None"
proof (induction s)
  case Nil
  show ?case by simp
next
  case (Cons c cs)
  have hex: "ishex (upperhex ! (byte c div 16))" "ishex (upperhex ! (byte c mod 16))"
    by (simp_all add: upperhex_digit byte_div_16)
  have kept: "c \<noteq> CHR ''%'' \<and> c \<noteq> CHR ''+''" if "\<not> shouldEscape c encodeQueryComponent"
    using that by (auto simp: shouldEscape_query in_range_def byte_def)
  show ?case
    using Cons hex kept by simp
qed

lemma build_escape: "unescape_build encodeQueryComponent (escape s encodeQueryComponent) = s"
proof (induction s)
  case Nil
  show ?case by simp
next
  case (Cons c cs)
  have hex: "unhex (upperhex ! (byte c div 16)) = byte c div 16"
    "unhex (upperhex ! (byte c mod 16)) = byte c mod 16"
    by (simp_all add: upperhex_digit byte_div_16)
  have kept: "c \<noteq> CHR ''%'' \<and> c \<noteq> CHR ''+''" if "\<not> shouldEscape c encodeQueryComponent"
    using that by (auto simp: shouldEscape_query in_range_def byte_def)
  show ?case
    using Cons kept by (simp add: hex byte_nibbles) (simp add: byte_def)
qed

lemma build_plain:
  "CHR ''%'' \<notin> set t \<Longrightarrow> CHR ''+'' \<notin> set t \<Longrightarrow> unescape_build mode t = t"
  by (induction t) auto

lemma QueryUnescape_QueryEscape: "QueryUnescape (QueryEscape s) = Inr s"
proof -
  let ?t = "escape s encodeQueryComponent"
  have "unescape_build encodeQueryComponent ?t = ?t"
    if "CHR ''%'' \<notin> set ?t" "CHR ''+'' \<notin> set ?t"
    using that by (rule build_plain)
  then show ?thesis
    by (auto simp: QueryUnescape_def QueryEscape_def unescape_def check_escape build_escape)
qed

subsection \<open>Cutting at a byte\<close>

lemma HasPrefix_single: "HasPrefix s [c] = (s \<noteq> [] \<and> hd s = c)"
  by (cases s) (simp_all add: HasPrefix_def)

lemma HasSuffix_single: "HasSuffix s [c] = (s \<noteq> [] \<and> last s = c)"
proof (cases s rule: rev_cases)
  case Nil
  then show ?thesis by (simp add: HasSuffix_def)
next
  case (snoc xs x)
  then show ?thesis by (simp add: HasSuffix_def)
qed

lemma Cut_absent: "c \<notin> set s \<Longrightarrow> Cut s [c] = (s, [], False)"
  by (induction s) (auto simp: HasPrefix_def)

lemma Cut_first: "c \<notin> set xs \<Longrightarrow> Cut (xs @ c # ys) [c] = (xs, ys, True)"
  by (induction xs) (auto simp: HasPrefix_def)

lemma Index_single_absent: "c \<notin> set s \<Longrightarrow> Index s [c] = None"
  by (induction s) (auto simp: HasPrefix_def)

lemma Contains_single: "Contains s [c] = (c \<in> set s)"
  unfolding Contains_def by (induction s) (auto simp: HasPrefix_def)

subsection \<open>Parse on the filled format\<close>

lemma Sprintf_base:
  "Sprintf base [a, b] =
     ''https://translate.google.com/translate_tts?client=tw-ob&ie=UTF-8&q='' @ a @ ''&tl='' @ b"
  by (simp add: base_def)

lemma getScheme_https: "getScheme (''https:'' @ r) = Inr (''https'', r)"
  by (simp add: getScheme_def in_range_def byte_def)

lemma closed_parts:
  "ToLower ''https'' = ''https''"
  "Index ''translate.google.com/translate_tts'' ''/'' = Some 20"
  "parseAuthority ''translate.google.com'' = Inr (None, ''translate.google.com'')"
  "unescape ''/translate_tts'' encodePath = Inr ''/translate_tts''"
  "escape ''/translate_tts'' encodePath = ''/translate_tts''"
  "\<not> stringContainsCTLByte ''https://translate.google.com/translate_tts?''"
  by code_simp+

lemma CTL_append:
  "stringContainsCTLByte (a @ b) = (stringContainsCTLByte a \<or> stringContainsCTLByte b)"
  by (simp add: stringContainsCTLByte_def)

lemma setPath_translate:
  "setPath u ''/translate_tts'' = Inr (u\<lparr>Path := ''/translate_tts'', RawPath := []\<rparr>)"
  unfolding setPath_def by (simp only: closed_parts sum.case) simp

lemma parse_translate:
  assumes "\<not> stringContainsCTLByte q" "CHR ''?'' \<notin> set q" "q \<noteq> []"
  shows "parse (''https://translate.google.com/translate_tts?'' @ q) False =
    Inr \<lparr>Scheme = ''https'', Opaque = [], User = None, Host = ''translate.google.com'',
         Path = ''/translate_tts'', RawPath = [], OmitHost = False, ForceQuery = False,
         RawQuery = q, Fragment = [], RawFragment = []\<rparr>"
proof -
  let ?raw = "''https://translate.google.com/translate_tts?'' @ q"
  let ?rest0 = "''//translate.google.com/translate_tts?'' @ q"
  have ctl: "\<not> stringContainsCTLByte ?raw"
    using assms(1) closed_parts(6) by (simp only: CTL_append) simp
  have sch: "getScheme ?raw = Inr (''https'', ?rest0)"
    using getScheme_https [of ?rest0] by simp
  have "last ?rest0 = last q"
    using assms(3) by simp
  moreover have "last q \<in> set q"
    using assms(3) by simp
  ultimately have suf: "\<not> HasSuffix ?rest0 ''?''"
    using assms(2) by (auto simp: HasSuffix_single)
  have cutq: "Cut ?rest0 ''?'' = (''//translate.google.com/translate_tts'', q, True)"
    using Cut_first [of "CHR ''?''" "''//translate.google.com/translate_tts''" q] by simp
  have star: "?raw \<noteq> ''*''" by simp
  show ?thesis
    unfolding parse_def
    by (simp only: ctl sch suf cutq star if_False sum.case prod.case Let_def closed_parts fst_conv
        snd_conv simp_thms)
      (simp add: HasPrefix_def closed_parts setPath_translate new_URL_def
        del: escape.simps unescape_check.simps Index.simps LastIndex.simps)
qed

lemma Parse_translate:
  assumes "\<not> stringContainsCTLByte q" "CHR ''?'' \<notin> set q" "CHR ''#'' \<notin> set q" "q \<noteq> []"
  shows "Parse (''https://translate.google.com/translate_tts?'' @ q) =
    Inr \<lparr>Scheme = ''https'', Opaque = [], User = None, Host = ''translate.google.com'',
         Path = ''/translate_tts'', RawPath = [], OmitHost = False, ForceQuery = False,
         RawQuery = q, Fragment = [], RawFragment = []\<rparr>"
proof -
  let ?raw = "''https://translate.google.com/translate_tts?'' @ q"
  have "CHR ''#'' \<notin> set ?raw"
    using assms(3) by simp
  then have cut: "Cut ?raw ''#'' = (?raw, [], False)"
    by (rule Cut_absent)
  show ?thesis
    unfolding Parse_def
    by (simp only: cut prod.case parse_translate [OF assms(1,2,4)] sum.case) simp
qed

lemma safe_no_CTL: "list_all query_safe t \<Longrightarrow> \<not> stringContainsCTLByte t"
proof (induction t)
  case Nil
  show ?case by (simp add: stringContainsCTLByte_def)
next
  case (Cons c cs)
  then have "query_safe c" and "\<not> stringContainsCTLByte cs" by simp_all
  then show ?case
    using query_safe_facts(6) [of c] by (simp add: stringContainsCTLByte_def)
qed

lemma safe_excludes:
  assumes "list_all query_safe t"
  shows "CHR ''#'' \<notin> set t" "CHR ''?'' \<notin> set t" "CHR ''&'' \<notin> set t" "CHR ''='' \<notin> set t"
    "CHR '';'' \<notin> set t"
proof -
  have "c \<notin> set t" if "\<not> query_safe c" for c
    using assms that by (auto simp: list_all_iff)
  moreover have "\<not> query_safe CHR ''#''" "\<not> query_safe CHR ''?''" "\<not> query_safe CHR ''&''"
    "\<not> query_safe CHR ''=''" "\<not> query_safe CHR '';''"
    using query_safe_facts(1) [of "CHR ''#''"] query_safe_facts(2) [of "CHR ''?''"]
      query_safe_facts(3) [of "CHR ''&''"] query_safe_facts(4) [of "CHR ''=''"]
      query_safe_facts(5) [of "CHR '';''"]
    by blast+
  ultimately show "CHR ''#'' \<notin> set t" "CHR ''?'' \<notin> set t" "CHR ''&'' \<notin> set t"
    "CHR ''='' \<notin> set t" "CHR '';'' \<notin> set t"
    by blast+
qed

lemma tts_value:
  "tts text lang =
    Inr \<lparr>Scheme = ''https'', Opaque = [], User = None, Host = ''translate.google.com'',
         Path = ''/translate_tts'', RawPath = [], OmitHost = False, ForceQuery = False,
         RawQuery = tts_query text lang, Fragment = [], RawFragment = []\<rparr>"
proof -
  let ?q = "tts_query text lang"
  note st = QueryEscape_safe [of "text"] QueryEscape_safe [of lang]
  have lit: "\<not> stringContainsCTLByte ''client=tw-ob&ie=UTF-8&q=''"
    "\<not> stringContainsCTLByte ''&tl=''"
    by code_simp+
  have 1: "\<not> stringContainsCTLByte ?q"
    unfolding tts_query_def CTL_append using lit safe_no_CTL [OF st(1)] safe_no_CTL [OF st(2)]
    by simp
  have 2: "CHR ''?'' \<notin> set ?q" "CHR ''#'' \<notin> set ?q"
    using safe_excludes(1,2) [OF st(1)] safe_excludes(1,2) [OF st(2)]
    by (simp_all add: tts_query_def)
  have 3: "?q \<noteq> []"
    by (simp add: tts_query_def)
  have "Sprintf base [QueryEscape text, QueryEscape lang] =
      ''https://translate.google.com/translate_tts?'' @ ?q"
    by (simp add: Sprintf_base tts_query_def)
  then show ?thesis
    unfolding tts_def using Parse_translate [OF 1 2 3] by simp
qed

subsection \<open>The query of the URL\<close>

lemma parseQuery_field:
  assumes "CHR ''&'' \<notin> set f" "CHR '';'' \<notin> set f" "f \<noteq> []"
    and "Cut f ''='' = (k, v, found)"
    and "QueryUnescape k = Inr key" "QueryUnescape v = Inr val"
  shows "parseQuery m err (f @ CHR ''&'' # rest) = parseQuery (m(key := m key @ [val])) err rest"
proof -
  have cut: "Cut (f @ CHR ''&'' # rest) ''&'' = (f, rest, True)"
    using assms(1) by (rule Cut_first)
  show ?thesis
    by (subst parseQuery.simps)
      (simp add: cut after_field_def Contains_single assms del: Cut.simps)
qed

lemma parseQuery_last:
  assumes "CHR ''&'' \<notin> set f" "CHR '';'' \<notin> set f" "f \<noteq> []"
    and "Cut f ''='' = (k, v, found)"
    and "QueryUnescape k = Inr key" "QueryUnescape v = Inr val"
  shows "parseQuery m err f = (m(key := m key @ [val]), err)"
proof -
  have cut: "Cut f ''&'' = (f, [], False)"
    using assms(1) by (rule Cut_absent)
  have stop: "parseQuery m' err [] = (m', err)" for m'
    by (subst parseQuery.simps) simp
  show ?thesis
    by (subst parseQuery.simps)
      (simp add: cut after_field_def Contains_single assms stop del: Cut.simps)
qed

lemma closed_fields:
  "Cut ''client=tw-ob'' ''='' = (''client'', ''tw-ob'', True)"
  "Cut ''ie=UTF-8'' ''='' = (''ie'', ''UTF-8'', True)"
  "QueryUnescape ''client'' = Inr ''client''"
  "QueryUnescape ''tw-ob'' = Inr ''tw-ob''"
  "QueryUnescape ''ie'' = Inr ''ie''"
  "QueryUnescape ''UTF-8'' = Inr ''UTF-8''"
  "QueryUnescape ''q'' = Inr ''q''"
  "QueryUnescape ''tl'' = Inr ''tl''"
  by code_simp+

lemma ParseQuery_tts:
  "ParseQuery (tts_query text lang) =
     ((\<lambda>k. [])(''client'' := [''tw-ob''], ''ie'' := [''UTF-8''], ''q'' := [text], ''tl'' := [lang]),
      None)"
proof -
  let ?a = "QueryEscape text" and ?b = "QueryEscape lang"
  note sa = safe_excludes [OF QueryEscape_safe [of "text"]]
  note sb = safe_excludes [OF QueryEscape_safe [of lang]]
  have shape: "tts_query text lang =
      ''client=tw-ob'' @ CHR ''&'' # (''ie=UTF-8'' @ CHR ''&'' # ((''q='' @ ?a) @ CHR ''&'' # (''tl='' @ ?b)))"
    by (simp add: tts_query_def)
  have cq: "Cut (''q='' @ ?a) ''='' = (''q'', ?a, True)"
    using Cut_first [of "CHR ''=''" "''q''" ?a] by simp
  have ct: "Cut (''tl='' @ ?b) ''='' = (''tl'', ?b, True)"
    using Cut_first [of "CHR ''=''" "''tl''" ?b] by simp
  let ?m0 = "(\<lambda>k. []) :: Values"
  let ?m1 = "?m0(''client'' := ?m0 ''client'' @ [''tw-ob''])"
  let ?m2 = "?m1(''ie'' := ?m1 ''ie'' @ [''UTF-8''])"
  let ?m3 = "?m2(''q'' := ?m2 ''q'' @ [text])"
  let ?m4 = "?m3(''tl'' := ?m3 ''tl'' @ [lang])"
  let ?r1 = "''ie=UTF-8'' @ CHR ''&'' # ((''q='' @ ?a) @ CHR ''&'' # (''tl='' @ ?b))"
  let ?r2 = "(''q='' @ ?a) @ CHR ''&'' # (''tl='' @ ?b)"
  have "parseQuery ?m0 None (''client=tw-ob'' @ CHR ''&'' # ?r1) = parseQuery ?m1 None ?r1"
    by (rule parseQuery_field [OF _ _ _ closed_fields(1) closed_fields(3) closed_fields(4)]) simp_all
  also have "\<dots> = parseQuery ?m2 None ?r2"
    by (rule parseQuery_field [OF _ _ _ closed_fields(2) closed_fields(5) closed_fields(6)]) simp_all
  also have "\<dots> = parseQuery ?m3 None (''tl='' @ ?b)"
    by (rule parseQuery_field [OF _ _ _ cq closed_fields(7) QueryUnescape_QueryEscape])
      (use sa in simp_all)
  also have "\<dots> = (?m4, None)"
    by (rule parseQuery_last [OF _ _ _ ct closed_fields(8) QueryUnescape_QueryEscape])
      (use sb in simp_all)
  finally show ?thesis
    unfolding ParseQuery_def shape by (simp add: fun_upd_def)
qed

lemma Get_tts:
  "Get (fst (ParseQuery (tts_query text lang))) ''q'' = text"
  "Get (fst (ParseQuery (tts_query text lang))) ''tl'' = lang"
  by (simp_all add: ParseQuery_tts Get_def)

section \<open>Lemmas on the item-building loop\<close>

lemma fill_items_eq:
  "i + length ds \<le> length items \<Longrightarrow>
   fill_items String i ds items =
     take i items @ map (queue_item String) ds @ drop (i + length ds) items"
proof (induction ds arbitrary: i items)
  case Nil
  show ?case by simp
next
  case (Cons d ds)
  let ?items = "items[i := queue_item String d]"
  have i: "i < length items" using Cons.prems by simp
  have "fill_items String (Suc i) ds ?items =
      take (Suc i) ?items @ map (queue_item String) ds @ drop (Suc i + length ds) ?items"
    by (rule Cons.IH) (use Cons.prems in simp)
  moreover have "take (Suc i) ?items = take i items @ [queue_item String d]"
    using i by (simp add: take_Suc_conv_app_nth)
  moreover have "drop (Suc i + length ds) ?items = drop (Suc i + length ds) items"
    by simp
  ultimately show ?case by simp
qed

lemma build_items_map: "build_items String data = map (queue_item String) data"
  unfolding build_items_def
  using fill_items_eq [of 0 data "replicate (length data) zero_item" String] by simp

section \<open>Properties of the playback operations and of tts\<close>

text \<open>
  Claim C2 as stated fails where \<open>g.client.Media(ctx)\<close> returns an error: \<open>QueueLoad\<close>
  returns on line 75, before any item is built, and sends no queue-load command.
\<close>

theorem QueueLoad_without_handle_counterexample:
  "queue_load_commands (snd (QueueLoad offline_client (\<lambda>u. u) [track_a, track_b])) = [] \<and>
   QueueLoad offline_client (\<lambda>u. u) [track_a, track_b] =
     (Some (ErrorString ''media channel unavailable''), [MediaCall])"
  by (simp add: QueueLoad_def offline_client_def Let_def)

text \<open>
  Claim C2, amended. When the media handle is obtained, \<open>QueueLoad\<close> sends exactly one
  queue-load command, with start index 0 and the items built from \<open>data\<close>, and returns
  what that command returns; when \<open>Media\<close> fails, it returns that error and sends
  nothing. For every \<open>data\<close> the items built have the length and the order of \<open>data\<close>:
  the \<open>i\<close>-th has the \<open>i\<close>-th locator, rendered as a string, as its content id, stream
  type \<open>BUFFERED\<close>, content type \<open>audio/mp3\<close>, and metadata of kind 3 with the \<open>i\<close>-th
  title.
\<close>

theorem QueueLoad_items:
  "(media_err g = None \<longrightarrow>
      queue_load_commands (snd (QueueLoad g String data)) = [(build_items String data, 0)] \<and>
      fst (QueueLoad g String data) = queue_load_err g (build_items String data) 0) \<and>
   (media_err g = Some e \<longrightarrow> QueueLoad g String data = (Some e, [MediaCall])) \<and>
   length (build_items String data) = length data \<and>
   (\<forall>i<length data.
      build_items String data ! i =
        \<lparr>ContentId = String (URL (data ! i)), StreamType = ''BUFFERED'',
         ContentType = ''audio/mp3'',
         MetaData = Some \<lparr>MetaDataType = 3, MediaMetaData.Title = Title (data ! i)\<rparr>\<rparr>)"
  by (simp add: QueueLoad_def build_items_map queue_item_def Let_def)

theorem QueueLoad_items_witness:
  "queue_load_commands (snd (QueueLoad ready_client (\<lambda>u. u) [track_a, track_b])) =
     [([\<lparr>ContentId = ''http://10.0.0.2/a.mp3'', StreamType = ''BUFFERED'',
         ContentType = ''audio/mp3'',
         MetaData = Some \<lparr>MetaDataType = 3, MediaMetaData.Title = ''T1''\<rparr>\<rparr>,
        \<lparr>ContentId = ''http://10.0.0.2/b.mp3'', StreamType = ''BUFFERED'',
         ContentType = ''audio/mp3'',
         MetaData = Some \<lparr>MetaDataType = 3, MediaMetaData.Title = ''T2''\<rparr>\<rparr>], 0)] \<and>
   QueueLoad offline_client (\<lambda>u. u) [track_a, track_b] =
     (Some (ErrorString ''media channel unavailable''), [MediaCall])"
proof -
  note t = QueueLoad_items [where g = ready_client and String = "\<lambda>u. u" and data = "[track_a, track_b]"]
  have up: "media_err ready_client = None" by (simp add: ready_client_def)
  have cmds: "queue_load_commands (snd (QueueLoad ready_client (\<lambda>u. u) [track_a, track_b])) =
      [(build_items (\<lambda>u. u) [track_a, track_b], 0)]"
    using t up by blast
  have len: "length (build_items (\<lambda>u. u) [track_a, track_b]) = Suc (Suc 0)"
    using t by simp
  have nth: "\<forall>i<length [track_a, track_b].
      build_items (\<lambda>u. u) [track_a, track_b] ! i =
        \<lparr>ContentId = URL ([track_a, track_b] ! i), StreamType = ''BUFFERED'',
         ContentType = ''audio/mp3'',
         MetaData = Some \<lparr>MetaDataType = 3,
           MediaMetaData.Title = Title ([track_a, track_b] ! i)\<rparr>\<rparr>"
    using t by blast
  have items: "build_items (\<lambda>u. u) [track_a, track_b] =
      [\<lparr>ContentId = ''http://10.0.0.2/a.mp3'', StreamType = ''BUFFERED'',
        ContentType = ''audio/mp3'',
        MetaData = Some \<lparr>MetaDataType = 3, MediaMetaData.Title = ''T1''\<rparr>\<rparr>,
       \<lparr>ContentId = ''http://10.0.0.2/b.mp3'', StreamType = ''BUFFERED'',
        ContentType = ''audio/mp3'',
        MetaData = Some \<lparr>MetaDataType = 3, MediaMetaData.Title = ''T2''\<rparr>\<rparr>]"
  proof (rule nth_equalityI)
    show "length (build_items (\<lambda>u. u) [track_a, track_b]) = length
      [\<lparr>ContentId = ''http://10.0.0.2/a.mp3'', StreamType = ''BUFFERED'',
        ContentType = ''audio/mp3'',
        MetaData = Some \<lparr>MetaDataType = 3, MediaMetaData.Title = ''T1''\<rparr>\<rparr>,
       \<lparr>ContentId = ''http://10.0.0.2/b.mp3'', StreamType = ''BUFFERED'',
        ContentType = ''audio/mp3'',
        MetaData = Some \<lparr>MetaDataType = 3, MediaMetaData.Title = ''T2''\<rparr>\<rparr>]"
      using len by simp
  next
    fix i
    assume "i < length (build_items (\<lambda>u. u) [track_a, track_b])"
    then have "i = 0 \<or> i = Suc 0" using len by auto
    then show "build_items (\<lambda>u. u) [track_a, track_b] ! i =
      [\<lparr>ContentId = ''http://10.0.0.2/a.mp3'', StreamType = ''BUFFERED'',
        ContentType = ''audio/mp3'',
        MetaData = Some \<lparr>MetaDataType = 3, MediaMetaData.Title = ''T1''\<rparr>\<rparr>,
       \<lparr>ContentId = ''http://10.0.0.2/b.mp3'', StreamType = ''BUFFERED'',
        ContentType = ''audio/mp3'',
        MetaData = Some \<lparr>MetaDataType = 3, MediaMetaData.Title = ''T2''\<rparr>\<rparr>] ! i"
      using nth by (auto simp: track_a_def track_b_def)
  qed
  have down: "media_err offline_client = Some (ErrorString ''media channel unavailable'')"
    by (simp add: offline_client_def)
  have off: "QueueLoad offline_client (\<lambda>u. u) [track_a, track_b] =
      (Some (ErrorString ''media channel unavailable''), [MediaCall])"
    using QueueLoad_items [where g = offline_client and String = "\<lambda>u. u"
        and e = "ErrorString ''media channel unavailable''" and data = "[track_a, track_b]"] down
    by blast
  from cmds items off show ?thesis by simp
qed

text \<open>
  Claim C3 as stated fails where \<open>g.client.Media(ctx)\<close> returns an error: \<open>Play\<close> returns
  on line 49 and sends no load-media command.
\<close>

theorem Play_without_handle_counterexample:
  "load_commands (snd (Play offline_client (\<lambda>u. u) ''http://10.0.0.2/a.mp3'')) = [] \<and>
   Play offline_client (\<lambda>u. u) ''http://10.0.0.2/a.mp3'' =
     (Some (ErrorString ''media channel unavailable''), [MediaCall])"
  by (simp add: Play_def offline_client_def Let_def)

text \<open>
  Claim C3, amended. When the media handle is obtained, \<open>Play\<close> sends exactly one
  load-media command and no queue command: the item has the locator rendered as a string
  as its content id, content type \<open>audio/mp3\<close>, stream type \<open>BUFFERED\<close> and no metadata;
  the start position is 0 and autoplay is true; \<open>Play\<close> returns what the command returns.
  When \<open>Media\<close> fails, \<open>Play\<close> returns that error and sends nothing.
\<close>

theorem Play_loads_once:
  "(media_err g = None \<longrightarrow>
      load_commands (snd (Play g String url)) =
        [(\<lparr>ContentId = String url, StreamType = ''BUFFERED'', ContentType = ''audio/mp3'',
           MetaData = None\<rparr>, 0, True)] \<and>
      queue_load_commands (snd (Play g String url)) = [] \<and>
      fst (Play g String url) =
        load_media_err g \<lparr>ContentId = String url, StreamType = ''BUFFERED'',
          ContentType = ''audio/mp3'', MetaData = None\<rparr> 0 True) \<and>
   (media_err g = Some e \<longrightarrow> Play g String url = (Some e, [MediaCall]))"
  by (simp add: Play_def Let_def)

theorem Play_loads_once_witness:
  "load_commands (snd (Play ready_client (\<lambda>u. u) ''http://10.0.0.2/a.mp3'')) =
     [(\<lparr>ContentId = ''http://10.0.0.2/a.mp3'', StreamType = ''BUFFERED'',
        ContentType = ''audio/mp3'', MetaData = None\<rparr>, 0, True)] \<and>
   fst (Play ready_client (\<lambda>u. u) ''http://10.0.0.2/a.mp3'') = None \<and>
   Play offline_client (\<lambda>u. u) ''http://10.0.0.2/a.mp3'' =
     (Some (ErrorString ''media channel unavailable''), [MediaCall])"
proof -
  have up: "media_err ready_client = None" by (simp add: ready_client_def)
  have down: "media_err offline_client = Some (ErrorString ''media channel unavailable'')"
    by (simp add: offline_client_def)
  have ok: "load_media_err ready_client item t a = None" for item t a
    by (simp add: ready_client_def)
  show ?thesis
    using Play_loads_once [where g = ready_client and String = "\<lambda>u. u"
        and url = "''http://10.0.0.2/a.mp3''"] up
      Play_loads_once [where g = offline_client and String = "\<lambda>u. u"
        and e = "ErrorString ''media channel unavailable''"
        and url = "''http://10.0.0.2/a.mp3''"] down
    by (simp add: ok)
qed

text \<open>
  Claim C7. If the resolver returns an error, \<open>Speak\<close> returns that error and does
  nothing to the device: no call of \<open>Media\<close>, no log line, no command. Otherwise it is
  \<open>Play\<close> on the resolved URL, result and effects. \<open>Speak\<close> is this with \<open>tts\<close> as the
  resolver, so it is \<open>Play\<close> on the URL that \<open>tts\<close> builds.
\<close>

theorem Speak_short_circuit:
  "(resolve text lang = Inl err \<longrightarrow>
      Speak_via resolve g String text lang = (Some err, [])) \<and>
   (resolve text lang = Inr u \<longrightarrow>
      Speak_via resolve g String text lang = Play g String u) \<and>
   Speak g String text lang = Speak_via tts g String text lang \<and>
   Speak g String text lang = Play g String (tts_url text lang)"
proof -
  have "tts text lang = Inr (tts_url text lang)"
    by (simp add: tts_value tts_url_def tts_query_def)
  then show ?thesis
    by (simp add: Speak_via_def Speak_def)
qed

theorem Speak_short_circuit_witness:
  "Speak_via failing_resolver ready_client (\<lambda>u. RawQuery u) ''hello'' ''en'' =
     (Some (URLError ''parse'' ''hello'' (ErrorString ''missing protocol scheme'')), []) \<and>
   Speak_via tts ready_client (\<lambda>u. RawQuery u) ''hello'' ''en'' =
     Play ready_client (\<lambda>u. RawQuery u) (tts_url ''hello'' ''en'')"
proof -
  have f: "failing_resolver ''hello'' ''en'' =
      Inl (URLError ''parse'' ''hello'' (ErrorString ''missing protocol scheme''))"
    by (simp add: failing_resolver_def)
  have t: "tts ''hello'' ''en'' = Inr (tts_url ''hello'' ''en'')"
    by (simp add: tts_value tts_url_def tts_query_def)
  show ?thesis
    using Speak_short_circuit [of failing_resolver "''hello''" "''en''"
        "URLError ''parse'' ''hello'' (ErrorString ''missing protocol scheme'')" ready_client
        "\<lambda>u. RawQuery u"] f
      Speak_short_circuit [of tts "''hello''" "''en''" _ ready_client
        "\<lambda>u. RawQuery u" "tts_url ''hello'' ''en''"] t
    by blast
qed

text \<open>
  Claim C8. For every \<open>text\<close> and \<open>lang\<close>, \<open>tts\<close> returns the URL \<open>tts_url text lang\<close>, a
  function of the two arguments alone; \<open>Query().Get\<close> on it gives \<open>text\<close> back for \<open>q\<close> and
  \<open>lang\<close> for \<open>tl\<close>, and \<open>QueryUnescape\<close> inverts \<open>QueryEscape\<close> on both.
\<close>

theorem tts_query_roundtrip:
  "tts text lang = Inr (tts_url text lang) \<and>
   Get (Query (tts_url text lang)) ''q'' = text \<and>
   Get (Query (tts_url text lang)) ''tl'' = lang \<and>
   QueryUnescape (QueryEscape text) = Inr text \<and>
   QueryUnescape (QueryEscape lang) = Inr lang"
proof -
  have rq: "RawQuery (tts_url text lang) = tts_query text lang"
    by (simp add: tts_url_def tts_query_def)
  have v: "tts text lang = Inr (tts_url text lang)"
    by (simp add: tts_value tts_url_def tts_query_def)
  have q: "Get (Query (tts_url text lang)) ''q'' = text"
    and l: "Get (Query (tts_url text lang)) ''tl'' = lang"
    by (simp_all only: Query_def rq Get_tts)
  from v q l show ?thesis
    by (simp only: QueryUnescape_QueryEscape simp_thms)
qed

text \<open>
  Claim C9. \<open>tts\<close> returns what \<open>url.Parse\<close> returns on the format filled with the two
  escaped arguments, so it fails only when that string does not parse; and for every pair
  of strings, the empty ones included, it returns a URL and never an error.
\<close>

theorem tts_never_fails:
  "tts text lang = Parse (Sprintf base [QueryEscape text, QueryEscape lang]) \<and>
   (\<exists>u. tts text lang = Inr u) \<and> (\<forall>err. tts text lang \<noteq> Inl err)"
proof -
  have "tts text lang = Parse (Sprintf base [QueryEscape text, QueryEscape lang])"
    by (simp only: tts_def)
  moreover have "\<exists>u. tts text lang = Inr u" "\<forall>err. tts text lang \<noteq> Inl err"
    by (simp_all add: tts_value)
  ultimately show ?thesis by blast
qed

end
